theory Spec2Isabelle
  imports Complex_Main "HOL-Library.List_Lexorder" "HOL-Library.Product_Lexorder"
    "HOL-Library.Multiset"
begin

section \<open>Strings and the Unicode tables\<close>

text \<open>
  A Python \<open>str\<close> is a sequence of Unicode code points, so a character is a natural
  number and a string a list of them. \<open>U\<close> reads an ASCII literal.
\<close>

type_synonym uchar = nat
type_synonym ustring = "uchar list"

definition U :: "string \<Rightarrow> ustring" where
  "U s = map of_char s"

text \<open>
  The loader calls \<open>unicodedata.normalize\<close>, \<open>unicodedata.combining\<close>, \<open>str.lower\<close> and
  the regex class \<open>\d\<close>. On ASCII their behaviour is written out below; for every other
  code point it is read from the Unicode character database, which is a parameter of
  the model:
  \<^item> \<open>decomposition c\<close>: the full compatibility decomposition of \<open>c\<close>;
  \<^item> \<open>combining c\<close>: the canonical combining class of \<open>c\<close>;
  \<^item> \<open>tolower seen c rest\<close>: the lower-case mapping of \<open>c\<close> standing between
    \<open>seen\<close> and \<open>rest\<close> (the context decides the Greek final sigma);
  \<^item> \<open>decimal c\<close>: whether \<open>c\<close> has the general category Nd;
  \<^item> \<open>digit_value c\<close>: the value \<open>int\<close> gives to the decimal digit \<open>c\<close>.
\<close>

record ucd =
  decomposition :: "uchar \<Rightarrow> ustring"
  combining :: "uchar \<Rightarrow> nat"
  tolower :: "ustring \<Rightarrow> uchar \<Rightarrow> ustring \<Rightarrow> ustring"
  decimal :: "uchar \<Rightarrow> bool"
  digit_value :: "uchar \<Rightarrow> nat"

definition is_ascii_digit :: "uchar \<Rightarrow> bool" where
  "is_ascii_digit c = (48 \<le> c \<and> c \<le> 57)"

definition is_digit :: "ucd \<Rightarrow> uchar \<Rightarrow> bool" where
  \<comment> \<open>the regex class \<open>\d\<close> of a \<open>str\<close> pattern\<close>
  "is_digit u c = (if c < 128 then is_ascii_digit c else decimal u c)"

definition is_space :: "uchar \<Rightarrow> bool" where
  \<comment> \<open>the regex class \<open>\s\<close> and the characters \<open>str.strip()\<close> removes\<close>
  "is_space c =
     ((9 \<le> c \<and> c \<le> 13) \<or> (28 \<le> c \<and> c \<le> 32) \<or> c = 133 \<or> c = 160 \<or> c = 5760
      \<or> (8192 \<le> c \<and> c \<le> 8202) \<or> c = 8232 \<or> c = 8233 \<or> c = 8239 \<or> c = 8287
      \<or> c = 12288)"

definition replacement_char :: uchar where
  "replacement_char = 65533"

definition nfkd :: "ucd \<Rightarrow> ustring \<Rightarrow> ustring" where
  \<comment> \<open>NFKD also reorders runs of combining marks; \<open>norm_text\<close> deletes every combining
      mark right after, so the order among them is never seen\<close>
  "nfkd u s = concat (map (\<lambda>c. if c < 128 then [c] else decomposition u c) s)"

definition combining_class :: "ucd \<Rightarrow> uchar \<Rightarrow> nat" where
  "combining_class u c = (if c < 128 then 0 else combining u c)"

definition ascii_lower :: "uchar \<Rightarrow> uchar" where
  "ascii_lower c = (if 65 \<le> c \<and> c \<le> 90 then c + 32 else c)"

fun lower_from :: "ucd \<Rightarrow> ustring \<Rightarrow> ustring \<Rightarrow> ustring" where
  "lower_from u seen [] = []"
| "lower_from u seen (c # rest) =
     (if c < 128 then [ascii_lower c] else tolower u seen c rest)
     @ lower_from u (seen @ [c]) rest"

definition lower :: "ucd \<Rightarrow> ustring \<Rightarrow> ustring" where
  "lower u s = lower_from u [] s"

function collapse_ws :: "ustring \<Rightarrow> ustring" where
  "collapse_ws [] = []"
| "collapse_ws (c # cs) =
     (if is_space c then 32 # collapse_ws (dropWhile is_space cs) else c # collapse_ws cs)"
  by pat_completeness auto
termination
  by (relation "measure length") (auto simp: less_Suc_eq_le length_dropWhile_le)

definition strip :: "ustring \<Rightarrow> ustring" where
  "strip s = rev (dropWhile is_space (rev (dropWhile is_space s)))"

definition norm_text :: "ucd \<Rightarrow> ustring \<Rightarrow> ustring" where
  "norm_text u v =
     (let v1 = nfkd u v;
          v2 = filter (\<lambda>c. combining_class u c = 0) v1;
          v3 = filter (\<lambda>c. c \<noteq> replacement_char) v2;
          v4 = lower u v3;
          v5 = collapse_ws v4
      in strip v5)"

definition clean_text :: "ustring \<Rightarrow> ustring" where
  "clean_text v =
     (let t1 = filter (\<lambda>c. c \<noteq> replacement_char) v;
          t2 = collapse_ws t1
      in strip t2)"

text \<open>
  An excerpt of the Unicode tables for the examples: the accented letters of
  Portuguese (lower and upper case) and the six combining marks they decompose into
  (grave, acute, circumflex, tilde, diaeresis, cedilla). Outside these it is the
  identity, so it stands for the real tables only on ASCII text with these letters.
\<close>

definition pt_base :: "uchar \<Rightarrow> (uchar \<times> uchar) option" where
  "pt_base c =
     (if c = 224 then Some (97, 768) else if c = 225 then Some (97, 769)
      else if c = 226 then Some (97, 770) else if c = 227 then Some (97, 771)
      else if c = 231 then Some (99, 807)
      else if c = 233 then Some (101, 769) else if c = 234 then Some (101, 770)
      else if c = 237 then Some (105, 769)
      else if c = 243 then Some (111, 769) else if c = 244 then Some (111, 770)
      else if c = 245 then Some (111, 771)
      else if c = 250 then Some (117, 769) else if c = 252 then Some (117, 776)
      else None)"

definition ucd_pt :: ucd where
  "ucd_pt =
     \<lparr> decomposition = (\<lambda>c.
          case pt_base c of Some (b, m) \<Rightarrow> [b, m]
          | None \<Rightarrow> (case pt_base (c + 32) of Some (b, m) \<Rightarrow> [b - 32, m] | None \<Rightarrow> [c])),
        combining = (\<lambda>c.
          if c = 768 \<or> c = 769 \<or> c = 770 \<or> c = 771 \<or> c = 776 then 230
          else if c = 807 then 202 else 0),
        tolower = (\<lambda>seen c rest.
          case pt_base (c + 32) of Some _ \<Rightarrow> [c + 32] | None \<Rightarrow> [c]),
        decimal = (\<lambda>c. False),
        digit_value = (\<lambda>c. 0) \<rparr>"

section \<open>Currency parsing\<close>

datatype py_error = IndexError | ValueError

text \<open>
  \<open>float(s)\<close> on the strings \<open>_parse_currency\<close> hands to it, which hold only ASCII
  digits, periods and minus signs: an optional leading minus, then digits with at most
  one period and at least one digit; anything else raises \<open>ValueError\<close>. The value is
  kept as the exact decimal the string denotes; Python returns the double nearest to
  it (infinity beyond the range of doubles), which depends on this decimal alone.
\<close>

definition digits_value :: "ustring \<Rightarrow> nat" where
  "digits_value ds = foldl (\<lambda>acc c. 10 * acc + (c - 48)) 0 ds"

definition float_unsigned :: "ustring \<Rightarrow> py_error + rat" where
  "float_unsigned body =
     (let ip = takeWhile is_ascii_digit body;
          r = dropWhile is_ascii_digit body
      in case r of
           [] \<Rightarrow> if ip = [] then Inl ValueError else Inr (of_nat (digits_value ip))
         | c # fp \<Rightarrow>
             if c = 46 \<and> list_all is_ascii_digit fp \<and> (ip \<noteq> [] \<or> fp \<noteq> [])
             then Inr (of_nat (digits_value ip) + of_nat (digits_value fp) / 10 ^ length fp)
             else Inl ValueError)"

definition py_float :: "ustring \<Rightarrow> py_error + rat" where
  "py_float s =
     (case s of
        [] \<Rightarrow> Inl ValueError
      | c # r \<Rightarrow>
          if c = 45 then (case float_unsigned r of Inl e \<Rightarrow> Inl e | Inr v \<Rightarrow> Inr (- v))
          else float_unsigned s)"

definition keep_currency_char :: "uchar \<Rightarrow> bool" where
  \<comment> \<open>the characters outside \<open>[^0-9,.-]\<close>\<close>
  "keep_currency_char c = (is_ascii_digit c \<or> c = 44 \<or> c = 46 \<or> c = 45)"

definition comma_to_period :: "ustring \<Rightarrow> ustring" where
  "comma_to_period s = map (\<lambda>c. if c = 44 then 46 else c) s"

definition parse_currency :: "ustring \<Rightarrow> rat option" where
  "parse_currency text =
     (let s1 = filter (\<lambda>c. c \<noteq> replacement_char) text;
          s2 = filter keep_currency_char s1
      in if s2 = [] then None
         else
           (let s3 = (if 44 \<in> set s2 \<and> 46 \<in> set s2
                      then comma_to_period (filter (\<lambda>c. c \<noteq> 46) s2)
                      else comma_to_period s2)
            in case py_float s3 of Inl e \<Rightarrow> None | Inr v \<Rightarrow> Some v))"

text \<open>
  \<open>re.search(r"-?R\$\s*([0-9.,]+)", line)\<close>: \<open>rs_body\<close> matches \<open>R\$\s*([0-9.,]+)\<close> at
  the head of a string and returns group 1, \<open>rs_at\<close> tries the optional minus first
  and then without it, \<open>rs_search\<close> tries every start position from the left.
\<close>

definition is_amount_char :: "uchar \<Rightarrow> bool" where
  "is_amount_char c = (is_ascii_digit c \<or> c = 46 \<or> c = 44)"

fun rs_body :: "ustring \<Rightarrow> ustring option" where
  "rs_body (a # b # r) =
     (if a = 82 \<and> b = 36
      then (let g = takeWhile is_amount_char (dropWhile is_space r)
            in if g = [] then None else Some g)
      else None)"
| "rs_body _ = None"

definition rs_at :: "ustring \<Rightarrow> ustring option" where
  "rs_at s =
     (case s of
        [] \<Rightarrow> rs_body s
      | c # r \<Rightarrow>
          if c = 45 then (case rs_body r of Some g \<Rightarrow> Some g | None \<Rightarrow> rs_body s)
          else rs_body s)"

fun rs_search :: "ustring \<Rightarrow> ustring option" where
  "rs_search [] = rs_at []"
| "rs_search (c # t) =
     (case rs_at (c # t) of Some g \<Rightarrow> Some g | None \<Rightarrow> rs_search t)"

definition extract_currency_from_line :: "ustring \<Rightarrow> rat option" where
  "extract_currency_from_line line =
     (case rs_search line of
        Some g \<Rightarrow> parse_currency g
      | None \<Rightarrow> parse_currency line)"

text \<open>
  The parsing rule as the specification words it: strip every character but digits,
  comma, period and minus; with both a comma and a period, drop the periods and turn
  the commas into periods; with commas only, turn them into periods; absent when
  what is left is not a number.
\<close>

definition parse_currency_spec :: "ustring \<Rightarrow> rat option" where
  "parse_currency_spec text =
     (let s = filter keep_currency_char text;
          s' = (if 44 \<in> set s \<and> 46 \<in> set s
                then comma_to_period (filter (\<lambda>c. c \<noteq> 46) s)
                else if 44 \<in> set s then comma_to_period s
                else s)
      in case py_float s' of Inl e \<Rightarrow> None | Inr v \<Rightarrow> Some v)"

section \<open>Keyword-anchored values\<close>

definition startswith :: "ustring \<Rightarrow> ustring \<Rightarrow> bool" where
  \<comment> \<open>\<open>s.startswith(p)\<close>\<close>
  "startswith s p = (take (length p) s = p)"

fun contains :: "ustring \<Rightarrow> ustring \<Rightarrow> bool" where
  \<comment> \<open>\<open>key in s\<close>\<close>
  "contains key [] = (key = [])"
| "contains key (c # s) = (startswith (c # s) key \<or> contains key s)"

definition nth_py :: "'a list \<Rightarrow> nat \<Rightarrow> py_error + 'a" where
  \<comment> \<open>\<open>xs[i]\<close> for an index that is not negative\<close>
  "nth_py xs i = (if i < length xs then Inr (xs ! i) else Inl IndexError)"

definition bind_err :: "py_error + 'a \<Rightarrow> ('a \<Rightarrow> py_error + 'b) \<Rightarrow> py_error + 'b" where
  "bind_err m f = (case m of Inl e \<Rightarrow> Inl e | Inr x \<Rightarrow> f x)"

lemma bind_err_cong [fundef_cong]:
  "m = m' \<Longrightarrow> (\<And>x. m' = Inr x \<Longrightarrow> f x = f' x) \<Longrightarrow> bind_err m f = bind_err m' f'"
  by (cases m') (simp_all add: bind_err_def)

text \<open>
  The \<open>for i, line in enumerate(lines)\<close> loops run over the remaining lines with the
  index beside them; \<open>lines\<close> itself is kept for the reads at \<open>i + 1\<close> and \<open>i + 2\<close>.
\<close>

fun find_value_from ::
  "ucd \<Rightarrow> ustring list \<Rightarrow> ustring \<Rightarrow> nat \<Rightarrow> ustring list \<Rightarrow> py_error + rat option" where
  "find_value_from u lines key i [] = Inr None"
| "find_value_from u lines key i (line # rest) =
     (if contains key (norm_text u line) then
        (case extract_currency_from_line line of
           Some v \<Rightarrow> Inr (Some v)
         | None \<Rightarrow>
             if i + 1 < length lines then
               bind_err (nth_py lines (i + 1)) (\<lambda>nxt.
                 case extract_currency_from_line nxt of
                   Some v \<Rightarrow> Inr (Some v)
                 | None \<Rightarrow> find_value_from u lines key (i + 1) rest)
             else find_value_from u lines key (i + 1) rest)
      else find_value_from u lines key (i + 1) rest)"

definition find_value_after_keyword ::
  "ucd \<Rightarrow> ustring list \<Rightarrow> ustring \<Rightarrow> py_error + rat option" where
  "find_value_after_keyword u lines key = find_value_from u lines key 0 lines"

text \<open>
  For the statements about the loop: \<open>keyword_line\<close> says that line \<open>i\<close> holds the
  keyword, \<open>anchor_value\<close> is what extraction gives at line \<open>i\<close> and, failing that, at
  the line after it. \<open>first_keyword_only\<close> is the rule as the specification words it
  (only the first keyword line is consulted); \<open>first_keyword_with_value\<close> takes the
  first keyword line at which a value is found.
\<close>

definition anchor_value :: "ustring list \<Rightarrow> nat \<Rightarrow> rat option" where
  "anchor_value lines i =
     (case extract_currency_from_line (lines ! i) of
        Some v \<Rightarrow> Some v
      | None \<Rightarrow>
          if i + 1 < length lines then extract_currency_from_line (lines ! (i + 1))
          else None)"

definition keyword_line :: "ucd \<Rightarrow> ustring \<Rightarrow> ustring list \<Rightarrow> nat \<Rightarrow> bool" where
  "keyword_line u key lines i = contains key (norm_text u (lines ! i))"

definition first_keyword_only :: "ucd \<Rightarrow> ustring list \<Rightarrow> ustring \<Rightarrow> rat option" where
  "first_keyword_only u lines key =
     (case find (keyword_line u key lines) [0..<length lines] of
        None \<Rightarrow> None
      | Some i \<Rightarrow> anchor_value lines i)"

definition first_keyword_with_value :: "ucd \<Rightarrow> ustring list \<Rightarrow> ustring \<Rightarrow> rat option" where
  "first_keyword_with_value u lines key =
     (case find (\<lambda>i. keyword_line u key lines i \<and> anchor_value lines i \<noteq> None)
             [0..<length lines] of
        None \<Rightarrow> None
      | Some i \<Rightarrow> anchor_value lines i)"

section \<open>Dates\<close>

definition months :: "(ustring \<times> ustring) list" where
  "months =
     [(U ''jan'', U ''01''), (U ''fev'', U ''02''), (U ''mar'', U ''03''),
      (U ''abr'', U ''04''), (U ''mai'', U ''05''), (U ''jun'', U ''06''),
      (U ''jul'', U ''07''), (U ''ago'', U ''08''), (U ''set'', U ''09''),
      (U ''out'', U ''10''), (U ''nov'', U ''11''), (U ''dez'', U ''12'')]"

definition is_month_char :: "uchar \<Rightarrow> bool" where
  \<comment> \<open>the class \<open>[a-zA-Z\.]\<close>\<close>
  "is_month_char c = ((97 \<le> c \<and> c \<le> 122) \<or> (65 \<le> c \<and> c \<le> 90) \<or> c = 46)"

text \<open>
  \<open>re.match(r"(\d{1,2}) de ([a-zA-Z\.]+) de (\d{4})", date_text)\<close>: \<open>date_tail\<close>
  matches what follows the day and returns groups 2 and 3; \<open>match_date\<close> tries a
  day of two digits first and then of one.
\<close>

definition date_tail :: "ucd \<Rightarrow> ustring \<Rightarrow> (ustring \<times> ustring) option" where
  "date_tail u r =
     (if startswith r (U '' de '') then
        (let r1 = drop 4 r;
             g2 = takeWhile is_month_char r1;
             r2 = dropWhile is_month_char r1
         in if g2 \<noteq> [] \<and> startswith r2 (U '' de '') then
              (let r3 = drop 4 r2
               in if 4 \<le> length r3 \<and> list_all (is_digit u) (take 4 r3)
                  then Some (g2, take 4 r3) else None)
            else None)
      else None)"

definition match_date :: "ucd \<Rightarrow> ustring \<Rightarrow> (ustring \<times> ustring \<times> ustring) option" where
  "match_date u s =
     (case s of
        [] \<Rightarrow> None
      | d1 # r \<Rightarrow>
          if is_digit u d1 then
            (case (case r of
                     [] \<Rightarrow> None
                   | d2 # r2 \<Rightarrow>
                       if is_digit u d2
                       then map_option (\<lambda>(g2, g3). ([d1, d2], g2, g3)) (date_tail u r2)
                       else None) of
               Some m \<Rightarrow> Some m
             | None \<Rightarrow> map_option (\<lambda>(g2, g3). ([d1], g2, g3)) (date_tail u r))
          else None)"

definition zfill :: "nat \<Rightarrow> ustring \<Rightarrow> ustring" where
  \<comment> \<open>\<open>s.zfill(n)\<close>: the zeros go after a leading sign\<close>
  "zfill n s =
     (if n \<le> length s then s
      else (case s of
              [] \<Rightarrow> replicate n 48
            | c # r \<Rightarrow>
                if c = 43 \<or> c = 45 then c # replicate (n - length s) 48 @ r
                else replicate (n - length s) 48 @ s))"

definition strip_dots :: "ustring \<Rightarrow> ustring" where
  \<comment> \<open>\<open>s.strip(".")\<close>\<close>
  "strip_dots s = rev (dropWhile (\<lambda>c. c = 46) (rev (dropWhile (\<lambda>c. c = 46) s)))"

definition month_prefix :: "ucd \<Rightarrow> ustring \<Rightarrow> ustring" where
  \<comment> \<open>\<open>m.group(2).strip(".")[:3].lower()\<close>\<close>
  "month_prefix u g2 = lower u (take 3 (strip_dots g2))"

definition parse_date_pt :: "ucd \<Rightarrow> ustring \<Rightarrow> ustring option" where
  "parse_date_pt u date_text =
     (case match_date u date_text of
        None \<Rightarrow> None
      | Some (g1, g2, g3) \<Rightarrow>
          (let day = zfill 2 g1
           in case map_of months (month_prefix u g2) of
                None \<Rightarrow> None
              | Some mon \<Rightarrow> if mon = [] then None else Some (g3 @ mon @ day)))"

section \<open>The receipt parser\<close>

record ponto =
  ponto_hora :: ustring
  endereco :: ustring

record recibo =
  arquivo :: ustring
  data_texto :: "ustring option"
  hora :: "ustring option"
  data_yyyymmdd :: "ustring option"
  total :: "rat option"
  preco_viagem :: "rat option"
  taxa_intermediacao :: "rat option"
  custo_fixo :: "rat option"
  promocao :: "rat option"
  pagamento_linha :: "ustring option"
  categoria :: "ustring option"
  distancia_km :: "ustring option"
  duracao_min :: "ustring option"
  origem :: "ponto option"
  destino :: "ponto option"

text \<open>
  \<open>re.match(r"^\d{1,2}:\d{2}$", s)\<close>: one or two digits, a colon, two digits, and the
  end of the string, which \<open>$\<close> also finds before a final newline.
\<close>

definition time_tail :: "ucd \<Rightarrow> ustring \<Rightarrow> bool" where
  "time_tail u r =
     (case r of
        c # a # b # e \<Rightarrow> c = 58 \<and> is_digit u a \<and> is_digit u b \<and> (e = [] \<or> e = [10])
      | _ \<Rightarrow> False)"

definition time_match :: "ucd \<Rightarrow> ustring \<Rightarrow> bool" where
  "time_match u s =
     (case s of
        [] \<Rightarrow> False
      | d1 # r \<Rightarrow>
          is_digit u d1 \<and>
          ((case r of [] \<Rightarrow> False | d2 # r2 \<Rightarrow> is_digit u d2 \<and> time_tail u r2)
           \<or> time_tail u r))"

definition date_line_match :: "ucd \<Rightarrow> ustring \<Rightarrow> bool" where
  \<comment> \<open>\<open>re.match(r"^\d{1,2} de ", s)\<close>\<close>
  "date_line_match u s =
     (case s of
        [] \<Rightarrow> False
      | d1 # r \<Rightarrow>
          is_digit u d1 \<and>
          ((case r of [] \<Rightarrow> False | d2 # r2 \<Rightarrow> is_digit u d2 \<and> startswith r2 (U '' de ''))
           \<or> startswith r (U '' de '')))"

fun date_header_from ::
  "ucd \<Rightarrow> ustring list \<Rightarrow> nat \<Rightarrow> ustring list
   \<Rightarrow> py_error + (ustring option \<times> ustring option)" where
  "date_header_from u lines i [] = Inr (None, None)"
| "date_header_from u lines i (line # rest) =
     (if date_line_match u (norm_text u line) \<and> contains (U '' de '') (norm_text u line) then
        (if i + 1 < length lines then
           bind_err (nth_py lines (i + 1)) (\<lambda>nxt.
             if time_match u nxt then Inr (Some (clean_text line), Some (clean_text nxt))
             else Inr (Some (clean_text line), None))
         else Inr (Some (clean_text line), None))
      else date_header_from u lines (i + 1) rest)"

fun pagamento_from ::
  "ucd \<Rightarrow> ustring list \<Rightarrow> nat \<Rightarrow> ustring list \<Rightarrow> py_error + ustring option" where
  "pagamento_from u lines i [] = Inr None"
| "pagamento_from u lines i (line # rest) =
     (if norm_text u line = U ''pagamentos'' then
        (if i + 1 < length lines
         then bind_err (nth_py lines (i + 1)) (\<lambda>nxt. Inr (Some (clean_text nxt)))
         else Inr None)
      else pagamento_from u lines (i + 1) rest)"

text \<open>
  \<open>re.search(r"([0-9.]+)\s*quilometros,\s*(\d+)\s*minutes", s)\<close>: \<open>km_at\<close> matches at
  the head of a string, \<open>km_search\<close> tries every start position from the left.
\<close>

definition is_km_char :: "uchar \<Rightarrow> bool" where
  "is_km_char c = (is_ascii_digit c \<or> c = 46)"

definition km_at :: "ucd \<Rightarrow> ustring \<Rightarrow> (ustring \<times> ustring) option" where
  "km_at u s =
     (let g1 = takeWhile is_km_char s;
          r1 = dropWhile is_space (dropWhile is_km_char s)
      in if g1 \<noteq> [] \<and> startswith r1 (U ''quilometros,'') then
           (let r2 = dropWhile is_space (drop 12 r1);
                g2 = takeWhile (is_digit u) r2;
                r3 = dropWhile is_space (dropWhile (is_digit u) r2)
            in if g2 \<noteq> [] \<and> startswith r3 (U ''minutes'') then Some (g1, g2) else None)
         else None)"

fun km_search :: "ucd \<Rightarrow> ustring \<Rightarrow> (ustring \<times> ustring) option" where
  "km_search u [] = km_at u []"
| "km_search u (c # t) =
     (case km_at u (c # t) of Some g \<Rightarrow> Some g | None \<Rightarrow> km_search u t)"

fun viagem_from ::
  "ucd \<Rightarrow> ustring list \<Rightarrow> nat \<Rightarrow> ustring list
   \<Rightarrow> py_error + (ustring option \<times> ustring option \<times> ustring option)" where
  "viagem_from u lines i [] = Inr (None, None, None)"
| "viagem_from u lines i (line # rest) =
     (if norm_text u line = U ''informacoes da viagem'' then
        bind_err
          (if i + 1 < length lines
           then bind_err (nth_py lines (i + 1)) (\<lambda>nxt. Inr (Some (clean_text nxt)))
           else Inr None)
          (\<lambda>cat.
             if i + 2 < length lines then
               bind_err (nth_py lines (i + 2)) (\<lambda>info.
                 case km_search u (norm_text u info) of
                   Some (g1, g2) \<Rightarrow> Inr (cat, Some g1, Some g2)
                 | None \<Rightarrow> Inr (cat, None, None))
             else Inr (cat, None, None))
      else viagem_from u lines (i + 1) rest)"

fun start_idx_from :: "ucd \<Rightarrow> nat \<Rightarrow> ustring list \<Rightarrow> nat" where
  "start_idx_from u i [] = 0"
| "start_idx_from u i (line # rest) =
     (if norm_text u line = U ''informacoes da viagem'' then i + 1
      else start_idx_from u (i + 1) rest)"

fun join :: "ustring \<Rightarrow> ustring list \<Rightarrow> ustring" where
  \<comment> \<open>\<open>sep.join(xs)\<close>\<close>
  "join sep [] = []"
| "join sep [x] = x"
| "join sep (x # y # xs) = x @ sep @ join sep (y # xs)"

text \<open>
  The inner \<open>while j < len(lines) and not time_re.match(lines[j])\<close> loop returns the
  index it stopped at and the address lines it collected.
\<close>

function addr_loop ::
  "ucd \<Rightarrow> ustring list \<Rightarrow> nat \<Rightarrow> ustring list \<Rightarrow> py_error + (nat \<times> ustring list)" where
  "addr_loop u lines j addr_lines =
     (if j < length lines then
        bind_err (nth_py lines j) (\<lambda>l.
          if \<not> time_match u l then
            (if startswith (norm_text u l) (U ''voce viajou'') then Inr (j, addr_lines)
             else addr_loop u lines (j + 1) (addr_lines @ [clean_text l]))
          else Inr (j, addr_lines))
      else Inr (j, addr_lines))"
  by pat_completeness auto
termination
  by (relation "measure (\<lambda>(u, lines, j, addr_lines). length lines - j)") auto

declare addr_loop.simps [simp del]

lemma addr_loop_index:
  "addr_loop u lines j addr_lines = Inr (k, a) \<Longrightarrow> j \<le> k"
proof (induction u lines j addr_lines rule: addr_loop.induct)
  case (1 u lines j addr_lines)
  show ?case
  proof (cases "j < length lines")
    case False
    with "1.prems" show ?thesis by (simp add: addr_loop.simps [of u lines j])
  next
    case True
    let ?l = "lines ! j"
    have rd: "nth_py lines j = Inr ?l" using True by (simp add: nth_py_def)
    show ?thesis
    proof (cases "\<not> time_match u ?l \<and> \<not> startswith (norm_text u ?l) (U ''voce viajou'')")
      case False
      with "1.prems" True show ?thesis
        by (auto simp: addr_loop.simps [of u lines j] bind_err_def nth_py_def split: if_splits)
    next
      case go: True
      from "1.prems" True go
      have "addr_loop u lines (j + 1) (addr_lines @ [clean_text ?l]) = Inr (k, a)"
        by (simp add: addr_loop.simps [of u lines j] bind_err_def nth_py_def)
      with "1.IH" [OF True rd] go have "j + 1 \<le> k" by simp
      then show ?thesis by simp
    qed
  qed
qed

text \<open>
  The outer \<open>while i < len(lines)\<close> loop: \<open>pontos\<close> grows by one entry at each time
  marker, and the scan goes on from where the inner loop stopped.
\<close>

function pontos_loop ::
  "ucd \<Rightarrow> ustring list \<Rightarrow> nat \<Rightarrow> ponto list \<Rightarrow> py_error + ponto list" where
  "pontos_loop u lines i pontos =
     (if i < length lines then
        bind_err (nth_py lines i) (\<lambda>l.
          if time_match u l then
            bind_err (addr_loop u lines (i + 1) []) (\<lambda>r.
              let pontos' = pontos @
                    [\<lparr> ponto_hora = clean_text l,
                       endereco = strip (join (U '' '') (snd r)) \<rparr>]
              in if 2 \<le> length pontos' then Inr pontos'
                 else pontos_loop u lines (fst r) pontos')
          else pontos_loop u lines (i + 1) pontos)
      else Inr pontos)"
  by pat_completeness auto
termination
proof (relation "measure (\<lambda>(u, lines, i, pontos). length lines - i)", goal_cases)
  case 1
  show ?case by simp
next
  case (2 u lines i pontos l r pontos')
  then have "i + 1 \<le> fst r"
    using addr_loop_index [of u lines "i + 1" "[]" "fst r" "snd r"] by simp
  with 2 show ?case by simp
next
  case 3
  then show ?case by simp
qed

declare pontos_loop.simps [simp del]

text \<open>
  The same extraction stated on the list of lines, as the specification words it:
  every time-marker line opens a group, whose address is made of the lines after it
  up to the next time marker or the next line that starts with "voce viajou", joined
  with single spaces.
\<close>

definition is_boilerplate :: "ucd \<Rightarrow> ustring \<Rightarrow> bool" where
  "is_boilerplate u l = startswith (norm_text u l) (U ''voce viajou'')"

definition address_part :: "ucd \<Rightarrow> ustring \<Rightarrow> bool" where
  "address_part u l = (\<not> time_match u l \<and> \<not> is_boilerplate u l)"

fun time_groups :: "ucd \<Rightarrow> ustring list \<Rightarrow> ponto list" where
  "time_groups u [] = []"
| "time_groups u (l # ls) =
     (if time_match u l then
        \<lparr> ponto_hora = clean_text l,
          endereco = strip (join (U '' '') (map clean_text (takeWhile (address_part u) ls))) \<rparr>
        # time_groups u ls
      else time_groups u ls)"

text \<open>
  The trip block of a receipt, for the examples: three time markers, and the line
  "Voce viajou" (with e-circumflex) after the second address.
\<close>

definition trip_lines :: "ustring list" where
  "trip_lines =
     [U ''Informa'' @ [231, 245] @ U ''es da viagem'', U ''UberX'',
      U ''12.5 quil'' @ [244] @ U ''metros, 23 minutes'',
      U ''10:00'', U ''Rua A, 10'', U ''Centro'', U ''10:30'', U ''Rua B'',
      U ''Voc'' @ [234] @ U '' viajou 23 min'', U ''11:00'', U ''Rua C'']"

definition parse_lines :: "ucd \<Rightarrow> ustring \<Rightarrow> ustring list \<Rightarrow> py_error + recibo" where
  \<comment> \<open>the body of \<open>carregar_recibo_uber\<close> once \<open>lines\<close> is built; \<open>arq\<close> is
      \<open>os.path.basename(pdf_path)\<close>\<close>
  "parse_lines u arq lines =
     bind_err (date_header_from u lines 0 lines) (\<lambda>dh.
     bind_err (find_value_after_keyword u lines (U ''total'')) (\<lambda>v_total.
     bind_err (find_value_after_keyword u lines (U ''preco da viagem'')) (\<lambda>v_preco.
     bind_err (find_value_after_keyword u lines (U ''taxa de intermediacao'')) (\<lambda>v_taxa.
     bind_err (find_value_after_keyword u lines (U ''custo fixo'')) (\<lambda>v_custo.
     bind_err (find_value_after_keyword u lines (U ''promocao'')) (\<lambda>v_promo.
     bind_err (pagamento_from u lines 0 lines) (\<lambda>pag.
     bind_err (viagem_from u lines 0 lines) (\<lambda>vi.
     bind_err (pontos_loop u lines (start_idx_from u 0 lines) []) (\<lambda>pontos.
     bind_err (if 0 < length pontos then map_sum id Some (nth_py pontos 0) else Inr None) (\<lambda>orig.
     bind_err (if 1 < length pontos then map_sum id Some (nth_py pontos 1) else Inr None) (\<lambda>dest.
       Inr \<lparr> arquivo = arq,
             data_texto = fst dh,
             hora = snd dh,
             data_yyyymmdd =
               parse_date_pt u (norm_text u (case fst dh of None \<Rightarrow> [] | Some d \<Rightarrow> d)),
             total = v_total,
             preco_viagem = v_preco,
             taxa_intermediacao = v_taxa,
             custo_fixo = v_custo,
             promocao = v_promo,
             pagamento_linha = pag,
             categoria = fst vi,
             distancia_km = fst (snd vi),
             duracao_min = snd (snd vi),
             origem = orig,
             destino = dest \<rparr>)))))))))))"

definition carregar_recibo_uber ::
  "ucd \<Rightarrow> ustring \<Rightarrow> ustring list \<Rightarrow> py_error + recibo" where
  \<comment> \<open>\<open>raw\<close> is \<open>text.splitlines()\<close>, the lines of the text the PDF reader returned\<close>
  "carregar_recibo_uber u arq raw =
     parse_lines u arq (filter (\<lambda>l. l \<noteq> []) (map clean_text raw))"

section \<open>The report builder\<close>

subsection \<open>Currency formatting\<close>

text \<open>
  \<open>f"{v:,.2f}"\<close>: a minus sign for a negative value, the integer part in groups of three
  digits separated by commas, a period and two decimals; the magnitude is rounded to
  two decimals, a tie going to the even neighbour. \<open>v\<close> is the exact value of the
  float (negative zero, infinities and NaN are left out).
\<close>

function nat_digits :: "nat \<Rightarrow> ustring" where
  "nat_digits n = (if n < 10 then [48 + n] else nat_digits (n div 10) @ [48 + n mod 10])"
  by pat_completeness auto
termination
  by (relation "measure id") auto

declare nat_digits.simps [simp del]

fun group3 :: "ustring \<Rightarrow> ustring" where
  \<comment> \<open>on the digits from the least significant one\<close>
  "group3 (a # b # c # d # r) = a # b # c # 44 # group3 (d # r)"
| "group3 ds = ds"

definition round_half_even :: "rat \<Rightarrow> nat" where
  "round_half_even x =
     (let f = nat \<lfloor>x\<rfloor>; d = x - of_nat f
      in if d < 1 / 2 then f else if 1 / 2 < d then f + 1
         else if even f then f else f + 1)"

definition fmt_2f :: "rat \<Rightarrow> ustring" where
  "fmt_2f v =
     (let cents = round_half_even (\<bar>v\<bar> * 100);
          whole = rev (group3 (rev (nat_digits (cents div 100))));
          frac = [48 + (cents mod 100) div 10, 48 + (cents mod 100) mod 10]
      in (if v < 0 then [45] else []) @ whole @ [46] @ frac)"

definition replace_char :: "uchar \<Rightarrow> uchar \<Rightarrow> ustring \<Rightarrow> ustring" where
  "replace_char a b s = map (\<lambda>c. if c = a then b else c) s"

definition fmt_currency :: "rat option \<Rightarrow> ustring" where
  "fmt_currency v =
     (case v of
        None \<Rightarrow> U ''-''
      | Some x \<Rightarrow>
          replace_char 88 46 (replace_char 46 44 (replace_char 44 88 (U ''R$ '' @ fmt_2f x))))"

definition promo_fmt :: "recibo \<Rightarrow> ustring" where
  \<comment> \<open>lines 233 to 236 of the builder\<close>
  "promo_fmt r =
     (let f = fmt_currency (promocao r)
      in if f \<noteq> U ''-'' \<and> \<not> startswith f (U ''-'') then U ''-'' @ f else f)"

subsection \<open>Ordering\<close>

definition py_or :: "ustring option \<Rightarrow> ustring \<Rightarrow> ustring" where
  \<comment> \<open>\<open>x or d\<close>: \<open>None\<close> and the empty string both give \<open>d\<close>\<close>
  "py_or x d = (case x of None \<Rightarrow> d | Some s \<Rightarrow> if s = [] then d else s)"

definition sort_key_uber :: "recibo \<Rightarrow> ustring" where
  \<comment> \<open>\<open>_sort_key\<close>\<close>
  "sort_key_uber r =
     py_or (data_yyyymmdd r) (U ''00000000'') @ U ''_'' @ py_or (hora r) (U ''00:00'')"

definition recibos_ordenados :: "recibo list \<Rightarrow> recibo list" where
  \<comment> \<open>\<open>sorted(recibos, key=_sort_key)\<close>: a stable sort, strings compared code point by
      code point\<close>
  "recibos_ordenados recibos = sort_key sort_key_uber recibos"

text \<open>
  The key as the specification words it, a pair ordered lexicographically: the date
  key, "00000000" when absent, and the time, "00:00" when absent. \<open>wf_keys\<close> holds
  of the records the parser builds: a date key has eight characters and a time is
  not empty. \<open>hhmm\<close> reads a time written with two digits for the hour.
\<close>

definition composite_key :: "recibo \<Rightarrow> ustring \<times> ustring" where
  "composite_key r =
     (case data_yyyymmdd r of None \<Rightarrow> U ''00000000'' | Some d \<Rightarrow> d,
      case hora r of None \<Rightarrow> U ''00:00'' | Some t \<Rightarrow> t)"

definition wf_keys :: "recibo \<Rightarrow> bool" where
  "wf_keys r =
     ((case data_yyyymmdd r of None \<Rightarrow> True | Some d \<Rightarrow> length d = 8)
      \<and> (case hora r of None \<Rightarrow> True | Some t \<Rightarrow> t \<noteq> []))"

definition hhmm :: "ustring \<Rightarrow> (nat \<times> nat) option" where
  "hhmm t =
     (if length t = 5 \<and> is_ascii_digit (t ! 0) \<and> is_ascii_digit (t ! 1) \<and> t ! 2 = 58
         \<and> is_ascii_digit (t ! 3) \<and> is_ascii_digit (t ! 4)
      then Some (10 * (t ! 0 - 48) + (t ! 1 - 48), 10 * (t ! 3 - 48) + (t ! 4 - 48))
      else None)"

definition empty_recibo :: recibo where
  \<comment> \<open>a record with every field absent, for the examples\<close>
  "empty_recibo =
     \<lparr> arquivo = [], data_texto = None, hora = None, data_yyyymmdd = None, total = None,
       preco_viagem = None, taxa_intermediacao = None, custo_fixo = None, promocao = None,
       pagamento_linha = None, categoria = None, distancia_km = None, duracao_min = None,
       origem = None, destino = None \<rparr>"

definition sort_example :: "recibo list" where
  "sort_example =
     [empty_recibo\<lparr>data_yyyymmdd := Some (U ''20240101''), hora := Some (U ''09:00'')\<rparr>,
      empty_recibo\<lparr>data_yyyymmdd := Some (U ''20240101''), hora := Some (U ''08:00'')\<rparr>,
      empty_recibo]"

definition time_example :: "recibo list" where
  \<comment> \<open>two trips of the same day, the first at 9:05 and the second at 10:30\<close>
  "time_example =
     [empty_recibo\<lparr>data_yyyymmdd := Some (U ''20240101''), hora := Some (U ''9:05'')\<rparr>,
      empty_recibo\<lparr>data_yyyymmdd := Some (U ''20240101''), hora := Some (U ''10:30'')\<rparr>]"

subsection \<open>Totals by month and by week\<close>

text \<open>
  \<open>datetime.strptime(value, "%Y%m%d")\<close> matches the text against
  \<open>(\d\d\d\d)(1[0-2]|0[1-9]|[1-9])(3[0-1]|[1-2]\d|0[1-9]|[1-9]| [1-9])\<close>, takes the
  first match in the order of the alternatives, and raises \<open>ValueError\<close> when there
  is none, when text is left over, or when the day does not exist in that month and
  year. \<open>int\<close> reads the digits.
\<close>

definition digit_val :: "ucd \<Rightarrow> uchar \<Rightarrow> nat" where
  "digit_val u c = (if c < 128 then c - 48 else digit_value u c)"

definition in_range :: "uchar \<Rightarrow> uchar \<Rightarrow> uchar \<Rightarrow> bool" where
  "in_range lo hi c = (lo \<le> c \<and> c \<le> hi)"

definition month_alts :: "ustring \<Rightarrow> (nat \<times> ustring) list" where
  "month_alts r =
     (case r of
        a # b # t \<Rightarrow>
          (if a = 49 \<and> in_range 48 50 b then [(10 + (b - 48), t)] else [])
          @ (if a = 48 \<and> in_range 49 57 b then [(b - 48, t)] else [])
          @ (if in_range 49 57 a then [(a - 48, b # t)] else [])
      | [a] \<Rightarrow> if in_range 49 57 a then [(a - 48, [])] else []
      | [] \<Rightarrow> [])"

definition day_alts :: "ucd \<Rightarrow> ustring \<Rightarrow> (nat \<times> ustring) list" where
  "day_alts u r =
     (case r of
        a # b # t \<Rightarrow>
          (if a = 51 \<and> in_range 48 49 b then [(30 + (b - 48), t)] else [])
          @ (if in_range 49 50 a \<and> is_digit u b then [(10 * (a - 48) + digit_val u b, t)] else [])
          @ (if a = 48 \<and> in_range 49 57 b then [(b - 48, t)] else [])
          @ (if in_range 49 57 a then [(a - 48, b # t)] else [])
          @ (if a = 32 \<and> in_range 49 57 b then [(b - 48, t)] else [])
      | [a] \<Rightarrow> if in_range 49 57 a then [(a - 48, [])] else []
      | [] \<Rightarrow> [])"

definition is_leap :: "nat \<Rightarrow> bool" where
  "is_leap y = (y mod 4 = 0 \<and> (y mod 100 \<noteq> 0 \<or> y mod 400 = 0))"

definition days_in_month :: "nat \<Rightarrow> nat \<Rightarrow> nat" where
  "days_in_month y m =
     (if m = 2 then (if is_leap y then 29 else 28)
      else if m = 4 \<or> m = 6 \<or> m = 9 \<or> m = 11 then 30 else 31)"

definition strptime_Ymd :: "ucd \<Rightarrow> ustring \<Rightarrow> py_error + (nat \<times> nat \<times> nat)" where
  "strptime_Ymd u s =
     (case s of
        y1 # y2 # y3 # y4 # r \<Rightarrow>
          if list_all (is_digit u) [y1, y2, y3, y4] then
            (case concat (map (\<lambda>(m, r'). map (\<lambda>(d, r''). (m, d, r'')) (day_alts u r'))
                            (month_alts r)) of
               [] \<Rightarrow> Inl ValueError
             | (m, d, left) # _ \<Rightarrow>
                 (let y = foldl (\<lambda>acc c. 10 * acc + digit_val u c) 0 [y1, y2, y3, y4]
                  in if left \<noteq> [] then Inl ValueError
                     else if 1 \<le> y \<and> 1 \<le> d \<and> d \<le> days_in_month y m then Inr (y, m, d)
                     else Inl ValueError))
          else Inl ValueError
      | _ \<Rightarrow> Inl ValueError)"

definition date_from_yyyymmdd :: "ucd \<Rightarrow> ustring option \<Rightarrow> (nat \<times> nat \<times> nat) option" where
  \<comment> \<open>the year, month and day of the \<open>datetime\<close> returned\<close>
  "date_from_yyyymmdd u v =
     (case v of
        None \<Rightarrow> None
      | Some s \<Rightarrow>
          if s = [] \<or> length s \<noteq> 8 then None
          else (case strptime_Ymd u s of Inl e \<Rightarrow> None | Inr d \<Rightarrow> Some d))"

definition week_idx :: "nat \<Rightarrow> nat" where
  \<comment> \<open>\<open>((d.day - 1) // 7) + 1\<close>\<close>
  "week_idx day = ((day - 1) div 7) + 1"

text \<open>
  The loop over \<open>recibos_ordenados\<close> that fills \<open>month_totals\<close> and \<open>week_totals\<close>. A
  month key \<open>"%m/%Y"\<close> is kept as the pair (month, year) it is printed from, a week
  key \<open>f"{month_key} \<bullet> Semana {week_idx}"\<close> as the month key and the week number.
  \<open>fadd\<close> is the addition of floats.
\<close>

type_synonym month_key = "nat \<times> nat"
type_synonym week_key = "month_key \<times> nat"
type_synonym totals = "(month_key \<rightharpoonup> rat) \<times> (week_key \<rightharpoonup> rat)"

definition get_or_zero :: "('k \<rightharpoonup> rat) \<Rightarrow> 'k \<Rightarrow> rat" where
  \<comment> \<open>\<open>d.get(k, 0.0)\<close>\<close>
  "get_or_zero t k = (case t k of None \<Rightarrow> 0 | Some x \<Rightarrow> x)"

definition period_step ::
  "(rat \<Rightarrow> rat \<Rightarrow> rat) \<Rightarrow> ucd \<Rightarrow> totals \<Rightarrow> recibo \<Rightarrow> totals" where
  "period_step fadd u acc r =
     (case date_from_yyyymmdd u (data_yyyymmdd r) of
        None \<Rightarrow> acc
      | Some (y, m, d) \<Rightarrow>
          (let mk = (m, y);
               t = (case total r of None \<Rightarrow> 0 | Some x \<Rightarrow> x);
               month_totals = (fst acc)(mk \<mapsto> fadd (get_or_zero (fst acc) mk) t);
               wk = (mk, week_idx d);
               week_totals = (snd acc)(wk \<mapsto> fadd (get_or_zero (snd acc) wk) t)
           in (month_totals, week_totals)))"

definition period_totals ::
  "(rat \<Rightarrow> rat \<Rightarrow> rat) \<Rightarrow> ucd \<Rightarrow> recibo list \<Rightarrow> totals" where
  "period_totals fadd u rs = foldl (period_step fadd u) (Map.empty, Map.empty) rs"

definition week_example :: recibo where
  \<comment> \<open>a trip of 8 January 2024 charged 25.00, for the examples\<close>
  "week_example = empty_recibo\<lparr>data_yyyymmdd := Some (U ''20240108''), total := Some 25\<rparr>"

section \<open>Properties\<close>

subsection \<open>Evaluation of the definitions\<close>

lemmas str_eval = U_def is_space_def is_ascii_digit_def replacement_char_def startswith_def

lemmas norm_eval = norm_text_def nfkd_def combining_class_def lower_def ascii_lower_def
  strip_def clean_text_def

lemmas cur_eval = extract_currency_from_line_def rs_at_def parse_currency_def
  is_amount_char_def keep_currency_char_def comma_to_period_def py_float_def
  float_unsigned_def digits_value_def

lemmas fmt_eval = fmt_currency_def fmt_2f_def round_half_even_def replace_char_def
  promo_fmt_def nat_digits.simps

subsection \<open>Facts about currency extraction\<close>

lemma float_unsigned_nonneg: "float_unsigned s = Inr v \<Longrightarrow> 0 \<le> v"
  by (auto simp: float_unsigned_def Let_def split: list.splits if_splits)

lemma py_float_nonneg: "py_float s = Inr v \<Longrightarrow> 45 \<notin> set s \<Longrightarrow> 0 \<le> v"
  by (auto simp: py_float_def split: list.splits if_splits dest: float_unsigned_nonneg)

lemma parse_currency_nonneg: "parse_currency a = Some v \<Longrightarrow> 45 \<notin> set a \<Longrightarrow> 0 \<le> v"
  by (auto simp: parse_currency_def Let_def comma_to_period_def split: if_splits sum.splits
      dest!: py_float_nonneg)

lemma amount_not_space: "is_amount_char c \<Longrightarrow> \<not> is_space c"
  by (auto simp: is_amount_char_def is_space_def is_ascii_digit_def)

lemma rs_body_amount:
  assumes "list_all is_space w" "a \<noteq> []" "list_all is_amount_char a"
    and "post = [] \<or> \<not> is_amount_char (hd post)"
  shows "rs_body (82 # 36 # w @ a @ post) = Some a"
proof -
  have w: "\<forall>c\<in>set w. is_space c" using assms(1) by (simp add: list_all_iff)
  have a: "\<forall>c\<in>set a. is_amount_char c" using assms(3) by (simp add: list_all_iff)
  obtain c a' where ca: "a = c # a'" using assms(2) by (cases a) auto
  have "dropWhile is_space (w @ a @ post) = a @ post"
    using w ca a by (simp add: dropWhile_append amount_not_space)
  moreover have "takeWhile is_amount_char (a @ post) = a"
    using a assms(4) by (cases post) (simp_all add: takeWhile_append)
  ultimately show ?thesis using assms(2) by simp
qed

lemma fmt_currency_prefix:
  "fmt_currency (Some v) =
     U ''R$ '' @ replace_char 88 46 (replace_char 46 44 (replace_char 44 88 (fmt_2f v)))"
  by (simp add: fmt_currency_def replace_char_def U_def)

lemma keep_not_replacement: "keep_currency_char c \<Longrightarrow> c \<noteq> replacement_char"
  by (auto simp: keep_currency_char_def replacement_char_def is_ascii_digit_def)

lemma filter_keep_replacement:
  "filter keep_currency_char (filter (\<lambda>c. c \<noteq> replacement_char) t) =
   filter keep_currency_char t"
  by (induction t) (auto dest: keep_not_replacement)

lemma comma_to_period_id: "44 \<notin> set s \<Longrightarrow> comma_to_period s = s"
  by (induction s) (auto simp: comma_to_period_def)

lemma parse_currency_refines: "parse_currency text = parse_currency_spec text"
proof -
  let ?s = "filter keep_currency_char text"
  have "parse_currency text =
          (if ?s = [] then None
           else case py_float (if 44 \<in> set ?s \<and> 46 \<in> set ?s
                               then comma_to_period (filter (\<lambda>c. c \<noteq> 46) ?s)
                               else comma_to_period ?s) of
                  Inl e \<Rightarrow> None | Inr v \<Rightarrow> Some v)"
    unfolding parse_currency_def Let_def filter_keep_replacement by (rule refl)
  also have "\<dots> = parse_currency_spec text"
  proof (cases "?s = []")
    case True
    then show ?thesis by (simp add: parse_currency_spec_def py_float_def)
  next
    case False
    then show ?thesis
      unfolding parse_currency_spec_def Let_def
      by (cases "44 \<in> set ?s") (simp_all only: comma_to_period_id if_True if_False simp_thms)
  qed
  finally show ?thesis .
qed

lemma float_unsigned_digit: "float_unsigned s = Inr v \<Longrightarrow> \<exists>c\<in>set s. is_ascii_digit c"
proof -
  assume a: "float_unsigned s = Inr v"
  let ?ip = "takeWhile is_ascii_digit s" and ?r = "dropWhile is_ascii_digit s"
  show ?thesis
  proof (cases "?ip = []")
    case False
    then obtain c where "c \<in> set ?ip" by (cases ?ip) auto
    then show ?thesis by (meson set_takeWhileD)
  next
    case True
    with a obtain c fp where r: "?r = c # fp" and fp: "fp \<noteq> []" "list_all is_ascii_digit fp"
      by (auto simp: float_unsigned_def Let_def split: list.splits if_splits)
    then obtain d where "d \<in> set fp" "is_ascii_digit d" by (cases fp) auto
    moreover have "set fp \<subseteq> set s"
      using r by (metis set_dropWhileD set_subset_Cons subsetI subset_iff)
    ultimately show ?thesis by blast
  qed
qed

lemma py_float_digit: "py_float s = Inr v \<Longrightarrow> \<exists>c\<in>set s. is_ascii_digit c"
  by (auto simp: py_float_def split: list.splits if_splits sum.splits
      dest!: float_unsigned_digit)

lemma parse_currency_digit: "parse_currency t = Some v \<Longrightarrow> \<exists>c\<in>set t. is_ascii_digit c"
  by (auto simp: parse_currency_def Let_def comma_to_period_def is_ascii_digit_def
      split: if_splits sum.splits dest!: py_float_digit)

lemma rs_body_subset: "rs_body s = Some g \<Longrightarrow> set g \<subseteq> set s"
proof (cases s rule: rs_body.cases)
  case (1 a b r)
  assume "rs_body s = Some g"
  with 1 have "g = takeWhile is_amount_char (dropWhile is_space r)"
    by (auto simp: Let_def split: if_splits)
  then have "set g \<subseteq> set r" by (metis set_dropWhileD set_takeWhileD subsetI)
  with 1 show ?thesis by auto
qed auto

lemma rs_at_subset: "rs_at s = Some g \<Longrightarrow> set g \<subseteq> set s"
  by (auto simp: rs_at_def split: list.splits if_splits option.splits dest!: rs_body_subset)

lemma rs_search_subset: "rs_search s = Some g \<Longrightarrow> set g \<subseteq> set s"
  by (induction s) (auto split: option.splits dest!: rs_at_subset)

lemma extract_no_digit:
  assumes "\<forall>c\<in>set line. \<not> is_ascii_digit c"
  shows "extract_currency_from_line line = None"
proof (rule ccontr)
  assume "extract_currency_from_line line \<noteq> None"
  then obtain v where v: "extract_currency_from_line line = Some v" by auto
  show False
  proof (cases "rs_search line")
    case None
    with v have "parse_currency line = Some v" by (simp add: extract_currency_from_line_def)
    with assms show False by (blast dest: parse_currency_digit)
  next
    case (Some g)
    with v have "parse_currency g = Some v" by (simp add: extract_currency_from_line_def)
    then obtain c where "c \<in> set g" "is_ascii_digit c" by (blast dest: parse_currency_digit)
    with Some assms show False by (blast dest: rs_search_subset)
  qed
qed

lemma rs_body_no_prefix:
  assumes "\<not> contains (U ''R$'') (c # p)"
  shows "rs_body (c # p @ 82 # rest) = None"
proof (cases p)
  case Nil
  then show ?thesis by simp
next
  case (Cons d p')
  with assms have "\<not> (c = 82 \<and> d = 36)" by (auto simp: startswith_def U_def)
  with Cons show ?thesis by auto
qed

lemma rs_search_first:
  assumes "\<not> contains (U ''R$'') pre" "list_all is_space w" "a \<noteq> []"
    "list_all is_amount_char a" and "post = [] \<or> \<not> is_amount_char (hd post)"
  shows "rs_search (pre @ 82 # 36 # w @ a @ post) = Some a"
  using assms(1)
proof (induction pre)
  case Nil
  show ?case using rs_body_amount [OF assms(2-5)] by (simp add: rs_at_def)
next
  case (Cons c p)
  let ?occ = "82 # 36 # w @ a @ post"
  from Cons.prems have np: "\<not> contains (U ''R$'') p"
    by (cases p) (auto simp: U_def startswith_def)
  have here: "rs_body (c # p @ ?occ) = None" using rs_body_no_prefix [OF Cons.prems] by simp
  have nxt: "rs_body (p @ ?occ) = None \<or> rs_body (p @ ?occ) = Some a"
  proof (cases p)
    case Nil
    then show ?thesis using rs_body_amount [OF assms(2-5)] by simp
  next
    case (Cons d p')
    with np show ?thesis using rs_body_no_prefix [of d p'] by simp
  qed
  have "rs_at (c # p @ ?occ) = None \<or> rs_at (c # p @ ?occ) = Some a"
    using here nxt by (auto simp: rs_at_def)
  then show ?case using Cons.IH [OF np] by auto
qed

subsection \<open>Facts about the keyword loop\<close>

lemma find_value_from_eq:
  "i \<le> length lines \<Longrightarrow>
   find_value_from u lines key i (drop i lines) =
     Inr (case find (\<lambda>j. keyword_line u key lines j \<and> anchor_value lines j \<noteq> None)
                 [i..<length lines] of
            None \<Rightarrow> None
          | Some j \<Rightarrow> anchor_value lines j)"
proof (induction "length lines - i" arbitrary: i)
  case 0
  then show ?case by simp
next
  case (Suc n)
  then have lt: "i < length lines" and le: "Suc i \<le> length lines"
    and n: "n = length lines - Suc i"
    by simp_all
  have dr: "drop i lines = lines ! i # drop (Suc i) lines"
    using lt by (simp add: Cons_nth_drop_Suc)
  have up: "[i..<length lines] = i # [Suc i..<length lines]"
    using lt by (simp add: upt_conv_Cons)
  note IH = Suc.hyps(1) [OF n le]
  show ?case
    unfolding dr up
    by (auto simp: IH keyword_line_def anchor_value_def bind_err_def nth_py_def
        split: option.splits)
qed

lemma find_value_after_keyword_eq:
  "find_value_after_keyword u lines key = Inr (first_keyword_with_value u lines key)"
  using find_value_from_eq [of 0 lines u key]
  by (simp add: find_value_after_keyword_def first_keyword_with_value_def)

lemma find_upt_first:
  "find P [i..<n] = Some j \<Longrightarrow> Q j \<Longrightarrow> find (\<lambda>k. P k \<and> Q k) [i..<n] = Some j"
  by (induction "n - i" arbitrary: i) (auto simp: upt_conv_Cons split: if_splits)

lemma first_keyword_wins:
  assumes "first_keyword_only u lines key \<noteq> None"
  shows "first_keyword_with_value u lines key = first_keyword_only u lines key"
proof -
  from assms obtain i where i: "find (keyword_line u key lines) [0..<length lines] = Some i"
    and v: "anchor_value lines i \<noteq> None"
    by (auto simp: first_keyword_only_def split: option.splits)
  have "find (\<lambda>k. keyword_line u key lines k \<and> anchor_value lines k \<noteq> None)
          [0..<length lines] = Some i"
    using find_upt_first [OF i, of "\<lambda>k. anchor_value lines k \<noteq> None"] v by simp
  with i show ?thesis by (simp add: first_keyword_only_def first_keyword_with_value_def)
qed

subsection \<open>Facts about the loops of the parser\<close>

lemmas date_eval = parse_date_pt_def match_date_def date_tail_def is_digit_def
  is_month_char_def zfill_def strip_dots_def month_prefix_def months_def

lemmas pt_eval = ucd_pt_def pt_base_def

lemma months_nonempty: "map_of months k = Some mon \<Longrightarrow> mon \<noteq> []"
  by (auto simp: months_def U_def split: if_splits)

lemma nth_py_ok: "i < length xs \<Longrightarrow> nth_py xs i = Inr (xs ! i)"
  by (simp add: nth_py_def)

lemma date_header_from_total: "\<exists>v. date_header_from u lines i rest = Inr v"
  by (induction rest arbitrary: i) (auto simp: bind_err_def nth_py_ok)

lemma pagamento_from_total: "\<exists>v. pagamento_from u lines i rest = Inr v"
  by (induction rest arbitrary: i) (auto simp: bind_err_def nth_py_ok)

lemma viagem_from_total: "\<exists>v. viagem_from u lines i rest = Inr v"
  by (induction rest arbitrary: i) (auto simp: bind_err_def nth_py_ok split: option.splits)

lemma addr_loop_eq:
  "addr_loop u lines j acc =
     Inr (j + length (takeWhile (address_part u) (drop j lines)),
          acc @ map clean_text (takeWhile (address_part u) (drop j lines)))"
proof (induction u lines j acc rule: addr_loop.induct)
  case (1 u lines j acc)
  show ?case
  proof (cases "j < length lines")
    case False
    then show ?thesis by (simp add: addr_loop.simps [of u lines j])
  next
    case True
    then have rd: "nth_py lines j = Inr (lines ! j)" by (rule nth_py_ok)
    have dr: "drop j lines = lines ! j # drop (Suc j) lines"
      using True by (simp add: Cons_nth_drop_Suc)
    show ?thesis
    proof (cases "address_part u (lines ! j)")
      case False
      then show ?thesis
        using True by (auto simp: addr_loop.simps [of u lines j] bind_err_def rd dr
            address_part_def is_boilerplate_def)
    next
      case ap: True
      then have c: "\<not> time_match u (lines ! j)"
        "\<not> startswith (norm_text u (lines ! j)) (U ''voce viajou'')"
        by (simp_all add: address_part_def is_boilerplate_def)
      have "addr_loop u lines j acc =
              addr_loop u lines (j + 1) (acc @ [clean_text (lines ! j)])"
        using True c by (simp add: addr_loop.simps [of u lines j] bind_err_def rd)
      also have "\<dots> =
          Inr (j + 1 + length (takeWhile (address_part u) (drop (j + 1) lines)),
               (acc @ [clean_text (lines ! j)])
               @ map clean_text (takeWhile (address_part u) (drop (j + 1) lines)))"
        by (rule "1.IH" [OF True rd c])
      finally show ?thesis using ap by (simp add: dr)
    qed
  qed
qed

lemma time_groups_skip:
  "\<forall>x\<in>set xs. \<not> time_match u x \<Longrightarrow> time_groups u (xs @ ys) = time_groups u ys"
  by (induction xs) auto

lemma time_groups_after_addr:
  "time_groups u (drop (j + length (takeWhile (address_part u) (drop j lines))) lines)
   = time_groups u (drop j lines)"
proof -
  let ?tw = "takeWhile (address_part u) (drop j lines)"
  have "drop j lines = ?tw @ dropWhile (address_part u) (drop j lines)" by simp
  moreover have "dropWhile (address_part u) (drop j lines) = drop (length ?tw) (drop j lines)"
    by (simp add: dropWhile_eq_drop)
  moreover have "\<forall>x\<in>set ?tw. \<not> time_match u x"
    by (auto dest: set_takeWhileD simp: address_part_def)
  ultimately have "time_groups u (drop j lines) =
                   time_groups u (drop (length ?tw) (drop j lines))"
    by (metis time_groups_skip)
  then show ?thesis by (simp add: add.commute)
qed

lemma pontos_loop_eq:
  "length pontos < 2 \<Longrightarrow>
   pontos_loop u lines i pontos = Inr (take 2 (pontos @ time_groups u (drop i lines)))"
proof (induction u lines i pontos rule: pontos_loop.induct)
  case (1 u lines i pontos)
  show ?case
  proof (cases "i < length lines")
    case False
    with "1.prems" show ?thesis by (simp add: pontos_loop.simps [of u lines i])
  next
    case True
    then have rd: "nth_py lines i = Inr (lines ! i)" by (rule nth_py_ok)
    have dr: "drop i lines = lines ! i # drop (Suc i) lines"
      using True by (simp add: Cons_nth_drop_Suc)
    show ?thesis
    proof (cases "time_match u (lines ! i)")
      case False
      with True "1.IH"(2) [OF True rd False "1.prems"] show ?thesis
        by (simp add: pontos_loop.simps [of u lines i] bind_err_def rd dr)
    next
      case tm: True
      let ?tw = "takeWhile (address_part u) (drop (i + 1) lines)"
      let ?r = "(i + 1 + length ?tw, [] @ map clean_text ?tw)"
      let ?p = "\<lparr> ponto_hora = clean_text (lines ! i),
                  endereco = strip (join (U '' '') (map clean_text ?tw)) \<rparr>"
      have r: "addr_loop u lines (i + 1) [] = Inr ?r" by (rule addr_loop_eq)
      have tg: "time_groups u (drop i lines) = ?p # time_groups u (drop (i + 1) lines)"
        using tm by (simp add: dr)
      show ?thesis
      proof (cases "pontos = []")
        case False
        with "1.prems" obtain q where q: "pontos = [q]"
          by (cases pontos) auto
        show ?thesis
          using True tm unfolding pontos_loop.simps [of u lines i] rd r tg q
          by (simp add: bind_err_def)
      next
        case e: True
        have nn: "\<not> 2 \<le> length (pontos @ [?p])" using e by simp
        have "pontos_loop u lines (fst ?r) (pontos @ [?p])
              = Inr (take 2 ((pontos @ [?p]) @ time_groups u (drop (fst ?r) lines)))"
          by (rule "1.IH"(1) [OF True rd tm r _ nn]) (simp_all add: e)
        moreover have "time_groups u (drop (fst ?r) lines) =
                       time_groups u (drop (i + 1) lines)"
          using time_groups_after_addr [of u "i + 1" lines] by simp
        ultimately show ?thesis
          using True tm unfolding pontos_loop.simps [of u lines i] rd r tg e
          by (simp add: bind_err_def)
      qed
    qed
  qed
qed

lemma start_idx_found:
  "i < length ls \<Longrightarrow> norm_text u (ls ! i) = U ''informacoes da viagem'' \<Longrightarrow>
   \<forall>j<i. norm_text u (ls ! j) \<noteq> U ''informacoes da viagem'' \<Longrightarrow>
   start_idx_from u k ls = k + i + 1"
proof (induction ls arbitrary: i k)
  case Nil
  then show ?case by simp
next
  case (Cons l ls)
  show ?case
  proof (cases i)
    case 0
    with Cons.prems show ?thesis by simp
  next
    case (Suc i')
    with Cons.prems have "norm_text u l \<noteq> U ''informacoes da viagem''" by auto
    moreover have "start_idx_from u (k + 1) ls = (k + 1) + i' + 1"
      using Cons.prems Suc by (intro Cons.IH) auto
    ultimately show ?thesis using Suc by simp
  qed
qed

lemma parse_lines_fields:
  "\<exists>dh pag vi.
     date_header_from u lines 0 lines = Inr dh
     \<and> pagamento_from u lines 0 lines = Inr pag
     \<and> viagem_from u lines 0 lines = Inr vi
     \<and> parse_lines u arq lines =
         Inr \<lparr> arquivo = arq,
               data_texto = fst dh,
               hora = snd dh,
               data_yyyymmdd =
                 parse_date_pt u (norm_text u (case fst dh of None \<Rightarrow> [] | Some d \<Rightarrow> d)),
               total = first_keyword_with_value u lines (U ''total''),
               preco_viagem = first_keyword_with_value u lines (U ''preco da viagem''),
               taxa_intermediacao =
                 first_keyword_with_value u lines (U ''taxa de intermediacao''),
               custo_fixo = first_keyword_with_value u lines (U ''custo fixo''),
               promocao = first_keyword_with_value u lines (U ''promocao''),
               pagamento_linha = pag,
               categoria = fst vi,
               distancia_km = fst (snd vi),
               duracao_min = snd (snd vi),
               origem =
                 (case time_groups u (drop (start_idx_from u 0 lines) lines) of
                    [] \<Rightarrow> None | p # _ \<Rightarrow> Some p),
               destino =
                 (case time_groups u (drop (start_idx_from u 0 lines) lines) of
                    p # q # _ \<Rightarrow> Some q | _ \<Rightarrow> None) \<rparr>"
proof -
  obtain dh where dh: "date_header_from u lines 0 lines = Inr dh"
    using date_header_from_total by blast
  obtain pag where pag: "pagamento_from u lines 0 lines = Inr pag"
    using pagamento_from_total by blast
  obtain vi where vi: "viagem_from u lines 0 lines = Inr vi"
    using viagem_from_total by blast
  have ps: "pontos_loop u lines (start_idx_from u 0 lines) [] =
              Inr (take 2 (time_groups u (drop (start_idx_from u 0 lines) lines)))"
    using pontos_loop_eq [of "[]" u lines "start_idx_from u 0 lines"] by simp
  have "parse_lines u arq lines =
         Inr \<lparr> arquivo = arq,
               data_texto = fst dh,
               hora = snd dh,
               data_yyyymmdd =
                 parse_date_pt u (norm_text u (case fst dh of None \<Rightarrow> [] | Some d \<Rightarrow> d)),
               total = first_keyword_with_value u lines (U ''total''),
               preco_viagem = first_keyword_with_value u lines (U ''preco da viagem''),
               taxa_intermediacao =
                 first_keyword_with_value u lines (U ''taxa de intermediacao''),
               custo_fixo = first_keyword_with_value u lines (U ''custo fixo''),
               promocao = first_keyword_with_value u lines (U ''promocao''),
               pagamento_linha = pag,
               categoria = fst vi,
               distancia_km = fst (snd vi),
               duracao_min = snd (snd vi),
               origem =
                 (case time_groups u (drop (start_idx_from u 0 lines) lines) of
                    [] \<Rightarrow> None | p # _ \<Rightarrow> Some p),
               destino =
                 (case time_groups u (drop (start_idx_from u 0 lines) lines) of
                    p # q # _ \<Rightarrow> Some q | _ \<Rightarrow> None) \<rparr>"
    unfolding parse_lines_def dh pag vi ps find_value_after_keyword_eq
    by (simp add: bind_err_def nth_py_def split: list.splits)
  with dh pag vi show ?thesis by blast
qed

lemmas time_eval = time_match_def time_tail_def is_digit_def address_part_def
  is_boilerplate_def

subsection \<open>Facts about the sort key and the shape of the records\<close>

lemma lex_append_le:
  fixes xs ys :: "nat list"
  shows "length xs = length ys \<Longrightarrow> (xs @ a \<le> ys @ b) = (xs < ys \<or> (xs = ys \<and> a \<le> b))"
  by (induction xs ys rule: list_induct2) auto

lemma lex_append_less:
  fixes xs ys :: "nat list"
  shows "length xs = length ys \<Longrightarrow> (xs @ a < ys @ b) = (xs < ys \<or> (xs = ys \<and> a < b))"
  by (induction xs ys rule: list_induct2) auto

lemma sort_key_pair:
  assumes "wf_keys r1" "wf_keys r2"
  shows "(sort_key_uber r1 \<le> sort_key_uber r2) = (composite_key r1 \<le> composite_key r2)"
proof -
  have k: "sort_key_uber r = fst (composite_key r) @ U ''_'' @ snd (composite_key r)
           \<and> length (fst (composite_key r)) = 8" if "wf_keys r" for r
    using that
    by (auto simp: wf_keys_def sort_key_uber_def composite_key_def py_or_def U_def
        split: option.splits)
  have "length (fst (composite_key r1)) = length (fst (composite_key r2))"
    using k [OF assms(1)] k [OF assms(2)] by simp
  then show ?thesis
    using k [OF assms(1)] k [OF assms(2)]
    by (auto simp: lex_append_le less_eq_prod_def U_def)
qed

lemma sorted_composite:
  assumes "\<forall>r\<in>set rs. wf_keys r"
  shows "sorted (map composite_key (recibos_ordenados rs))"
proof -
  let ?out = "sort_key sort_key_uber rs"
  have "sorted (map sort_key_uber ?out)" by (rule sorted_sort_key)
  then have "sorted_wrt (\<lambda>x y. sort_key_uber x \<le> sort_key_uber y) ?out"
    by (simp add: sorted_map)
  then have "sorted_wrt (\<lambda>x y. composite_key x \<le> composite_key y) ?out"
    by (rule sorted_wrt_mono_rel [rotated]) (use assms in \<open>simp add: sort_key_pair\<close>)
  then show ?thesis by (simp add: sorted_map recibos_ordenados_def)
qed

lemma sorted_position:
  fixes xs :: "'a list" and f :: "'a \<Rightarrow> 'b::linorder"
  assumes "sorted (map f xs)" "i < length xs" "j < length xs" "f (xs ! i) < f (xs ! j)"
  shows "i < j"
proof (rule ccontr)
  assume "\<not> i < j"
  then have "j \<le> i" by simp
  then have "map f xs ! j \<le> map f xs ! i"
    using assms(1,2) by (intro sorted_nth_mono) simp_all
  with assms show False by simp
qed

lemma is_digit_ge: "is_digit u c \<Longrightarrow> 48 \<le> c"
  by (auto simp: is_digit_def is_ascii_digit_def split: if_splits)

lemma zeros_le:
  fixes g :: "nat list"
  shows "\<forall>c\<in>set g. 48 \<le> c \<Longrightarrow> replicate (length g) 48 \<le> g"
  by (induction g) auto

lemma date_tail_shape:
  "date_tail u r = Some (g2, g3) \<Longrightarrow> length g3 = 4 \<and> (\<forall>c\<in>set g3. 48 \<le> c)"
  by (auto simp: date_tail_def Let_def list_all_iff split: if_splits dest: is_digit_ge)

lemma match_date_shape:
  "match_date u s = Some (g1, g2, g3) \<Longrightarrow>
   (length g1 = 1 \<or> length g1 = 2) \<and> length g3 = 4 \<and> (\<forall>c\<in>set g3. 48 \<le> c)"
  by (auto simp: match_date_def split: list.splits if_splits option.splits
      dest: date_tail_shape)

lemma months_shape: "map_of months k = Some mon \<Longrightarrow> length mon = 2 \<and> U ''00'' < mon"
  by (auto simp: months_def U_def split: if_splits)

lemma zfill2_len: "length g = 1 \<or> length g = 2 \<Longrightarrow> length (zfill 2 g) = 2"
  by (auto simp: zfill_def split: list.splits)

lemma parse_date_shape:
  assumes "parse_date_pt u s = Some d"
  shows "length d = 8 \<and> U ''00000000'' < d"
proof -
  from assms obtain g1 g2 g3 mon where m: "match_date u s = Some (g1, g2, g3)"
    and mon: "map_of months (month_prefix u g2) = Some mon"
    and d: "d = g3 @ mon @ zfill 2 g1"
    by (auto simp: parse_date_pt_def Let_def split: option.splits if_splits)
  from match_date_shape [OF m] have g1: "length g1 = 1 \<or> length g1 = 2"
    and g3: "length g3 = 4" "\<forall>c\<in>set g3. 48 \<le> c" by auto
  from months_shape [OF mon] have ml: "length mon = 2" and mz: "U ''00'' < mon" by auto
  have len: "length d = 8" using d g3 ml zfill2_len [OF g1] by simp
  have z: "replicate 4 48 \<le> g3" using zeros_le [OF g3(2)] g3(1) by simp
  have "U ''00'' @ U ''00'' < mon @ zfill 2 g1"
    using ml mz by (subst lex_append_less) (simp_all add: U_def)
  then have "replicate 4 48 @ (U ''00'' @ U ''00'') < g3 @ (mon @ zfill 2 g1)"
    using z g3(1) by (subst lex_append_less) auto
  moreover have "U ''00000000'' = replicate 4 48 @ (U ''00'' @ U ''00'')"
    by (simp add: U_def numeral_eq_Suc)
  ultimately show ?thesis using len d by simp
qed

lemma two_digit_less:
  fixes k l k' l' :: nat
  assumes "l < 10" "l' < 10"
  shows "(10 * k + l < 10 * k' + l') = (k < k' \<or> k = k' \<and> l < l')"
  using assms by auto

lemma two_digit_eq:
  fixes k l k' l' :: nat
  assumes "l < 10" "l' < 10"
  shows "(10 * k + l = 10 * k' + l') = (k = k' \<and> l = l')"
proof
  assume eq: "10 * k + l = 10 * k' + l'"
  then have "(10 * k + l) mod 10 = (10 * k' + l') mod 10" by simp
  then have "l = l'" using assms by simp
  with eq show "k = k' \<and> l = l'" by simp
qed simp

lemma digit_less: "is_ascii_digit x \<Longrightarrow> is_ascii_digit y \<Longrightarrow> (x - 48 < y - 48) = (x < y)"
  by (auto simp: is_ascii_digit_def)

lemma digit_eq: "is_ascii_digit x \<Longrightarrow> is_ascii_digit y \<Longrightarrow> (x - 48 = y - 48) = (x = y)"
  by (auto simp: is_ascii_digit_def)

lemma digit_lt10: "is_ascii_digit x \<Longrightarrow> x - 48 < 10"
  by (auto simp: is_ascii_digit_def)

lemma len5: "length t = 5 \<Longrightarrow> \<exists>a b c d e. t = [a, b, c, d, e]"
  by (auto simp: numeral_eq_Suc length_Suc_conv)

lemma hhmm_shape:
  assumes "hhmm t = Some p"
  shows "\<exists>a b d e. t = [a, b, 58, d, e] \<and> is_ascii_digit a \<and> is_ascii_digit b
           \<and> is_ascii_digit d \<and> is_ascii_digit e
           \<and> p = (10 * (a - 48) + (b - 48), 10 * (d - 48) + (e - 48))"
proof -
  from assms have "length t = 5" by (simp add: hhmm_def split: if_splits)
  then obtain a b c d e where t: "t = [a, b, c, d, e]" using len5 by blast
  with assms show ?thesis by (simp add: hhmm_def split: if_splits)
qed

lemma hhmm_order:
  assumes "hhmm t1 = Some p1" "hhmm t2 = Some p2"
  shows "(t1 < t2) = (p1 < p2)"
proof -
  from hhmm_shape [OF assms(1)] obtain a b d e where t1: "t1 = [a, b, 58, d, e]"
    and d1: "is_ascii_digit a" "is_ascii_digit b" "is_ascii_digit d" "is_ascii_digit e"
    and p1: "p1 = (10 * (a - 48) + (b - 48), 10 * (d - 48) + (e - 48))"
    by blast
  from hhmm_shape [OF assms(2)] obtain a' b' d' e' where t2: "t2 = [a', b', 58, d', e']"
    and d2: "is_ascii_digit a'" "is_ascii_digit b'" "is_ascii_digit d'" "is_ascii_digit e'"
    and p2: "p2 = (10 * (a' - 48) + (b' - 48), 10 * (d' - 48) + (e' - 48))"
    by blast
  have L: "(t1 < t2) = (a < a' \<or> a = a' \<and> (b < b' \<or> b = b' \<and> (d < d' \<or> d = d' \<and> e < e')))"
    unfolding t1 t2 by simp
  have R: "(p1 < p2) =
     (10 * (a - 48) + (b - 48) < 10 * (a' - 48) + (b' - 48)
      \<or> 10 * (a - 48) + (b - 48) = 10 * (a' - 48) + (b' - 48)
        \<and> 10 * (d - 48) + (e - 48) < 10 * (d' - 48) + (e' - 48))"
    unfolding p1 p2 less_prod_def by auto
  have H: "(10 * (a - 48) + (b - 48) < 10 * (a' - 48) + (b' - 48)) = (a < a' \<or> a = a' \<and> b < b')"
    using d1 d2 by (simp add: two_digit_less digit_lt10 digit_less digit_eq)
  have E: "(10 * (a - 48) + (b - 48) = 10 * (a' - 48) + (b' - 48)) = (a = a' \<and> b = b')"
    using d1 d2 by (simp add: two_digit_eq digit_lt10 digit_eq)
  have M: "(10 * (d - 48) + (e - 48) < 10 * (d' - 48) + (e' - 48)) = (d < d' \<or> d = d' \<and> e < e')"
    using d1 d2 by (simp add: two_digit_less digit_lt10 digit_less digit_eq)
  show ?thesis unfolding L R H E M by blast
qed

lemma dropWhile_keeps: "x \<in> set xs \<Longrightarrow> \<not> P x \<Longrightarrow> x \<in> set (dropWhile P xs)"
  by (induction xs) auto

lemma strip_keeps: "c \<in> set s \<Longrightarrow> \<not> is_space c \<Longrightarrow> c \<in> set (strip s)"
  by (simp add: strip_def dropWhile_keeps)

lemma collapse_ws_keeps: "c \<in> set s \<Longrightarrow> \<not> is_space c \<Longrightarrow> c \<in> set (collapse_ws s)"
  by (induction s rule: collapse_ws.induct) (auto dest: set_dropWhileD simp: dropWhile_keeps)

lemma clean_text_keeps:
  "c \<in> set s \<Longrightarrow> \<not> is_space c \<Longrightarrow> c \<noteq> replacement_char \<Longrightarrow> c \<in> set (clean_text s)"
  by (simp add: clean_text_def strip_keeps collapse_ws_keeps)

lemma time_match_colon: "time_match u s \<Longrightarrow> 58 \<in> set s"
  by (auto simp: time_match_def time_tail_def split: list.splits)

lemma time_match_clean: "time_match u s \<Longrightarrow> clean_text s \<noteq> []"
proof -
  assume "time_match u s"
  then have "58 \<in> set s" by (rule time_match_colon)
  then have "58 \<in> set (clean_text s)"
    by (rule clean_text_keeps) (simp_all add: is_space_def replacement_char_def)
  then show ?thesis by auto
qed

lemma date_header_time:
  "date_header_from u lines i rest = Inr (d, Some t) \<Longrightarrow> t \<noteq> []"
  by (induction rest arbitrary: i)
    (auto simp: bind_err_def nth_py_def split: if_splits dest: time_match_clean)

lemma parser_records_wf_keys:
  assumes "parse_lines u arq lines = Inr r"
  shows "wf_keys r"
proof -
  from parse_lines_fields [of u lines arq] assms
  obtain dh where dh: "date_header_from u lines 0 lines = Inr dh"
    and h: "hora r = snd dh"
    and k: "data_yyyymmdd r =
              parse_date_pt u (norm_text u (case fst dh of None \<Rightarrow> [] | Some d \<Rightarrow> d))"
    by force
  have "t \<noteq> []" if "hora r = Some t" for t
    using date_header_time [of u lines 0 lines "fst dh" t] dh h that by simp
  moreover have "length d = 8" if "data_yyyymmdd r = Some d" for d
    using parse_date_shape [of u _ d] k that by simp
  ultimately show ?thesis by (auto simp: wf_keys_def split: option.splits)
qed

subsection \<open>Facts about dates and the aggregation loop\<close>

lemmas cal_eval = date_from_yyyymmdd_def strptime_Ymd_def month_alts_def day_alts_def
  in_range_def digit_val_def is_digit_def is_leap_def days_in_month_def

lemma days_in_month_le: "days_in_month y m \<le> 31"
  by (simp add: days_in_month_def)

lemma date_from_day:
  assumes "date_from_yyyymmdd u v = Some (y, m, d)"
  shows "1 \<le> d \<and> d \<le> 31"
proof -
  from assms obtain s where "strptime_Ymd u s = Inr (y, m, d)"
    by (auto simp: date_from_yyyymmdd_def split: option.splits if_splits sum.splits)
  then have "1 \<le> d \<and> d \<le> days_in_month y m"
    by (auto simp: strptime_Ymd_def Let_def split: list.splits if_splits prod.splits)
  then show ?thesis using days_in_month_le [of y m] by simp
qed

lemma period_step_skip:
  "date_from_yyyymmdd u (data_yyyymmdd r) = None \<Longrightarrow> period_step fadd u acc r = acc"
  by (simp add: period_step_def)

lemma period_fold_filter:
  "foldl (period_step fadd u) acc rs =
   foldl (period_step fadd u) acc
     (filter (\<lambda>r. date_from_yyyymmdd u (data_yyyymmdd r) \<noteq> None) rs)"
proof (induction rs arbitrary: acc)
  case Nil
  show ?case by simp
next
  case (Cons r rs)
  show ?case
  proof (cases "date_from_yyyymmdd u (data_yyyymmdd r) = None")
    case True
    then have "period_step fadd u acc r = acc" by (rule period_step_skip)
    with True Cons.IH [of acc] show ?thesis by simp
  next
    case False
    with Cons.IH [of "period_step fadd u acc r"] show ?thesis by simp
  qed
qed

lemma week_idx_range: "1 \<le> d \<Longrightarrow> d \<le> 31 \<Longrightarrow> 1 \<le> week_idx d \<and> week_idx d \<le> 5"
  by (simp add: week_idx_def)

subsection \<open>Keyword matching is substring containment\<close>

text \<open>
  C9. The keyword is looked for anywhere in the normalised line, so a line that only
  contains it inside a longer word anchors the field: with a "Subtotal" line before
  the line labelled "Total", the value found for the keyword "total" is the
  subtotal's 20.00, although the "Total" line alone gives 25.00. This holds whatever
  the Unicode tables say, the lines being ASCII.
\<close>

theorem total_anchored_by_subtotal:
  "contains (U ''total'') (norm_text u (U ''Subtotal R$ 20,00''))
   \<and> find_value_after_keyword u [U ''Subtotal R$ 20,00'', U ''Total R$ 25,00''] (U ''total'')
       = Inr (Some 20)
   \<and> find_value_after_keyword u [U ''Total R$ 25,00''] (U ''total'') = Inr (Some 25)"
  by (simp add: find_value_after_keyword_def str_eval norm_eval cur_eval)

subsection \<open>A minus sign before the currency prefix\<close>

text \<open>
  C10. For a line made of "-R$", optional white space and an amount (a non-empty run
  of digits, periods and commas), the value extracted is that of the amount alone:
  the same as for the line without the minus sign, and never negative. So
  "-R$ 10,00" gives 10.00.
\<close>

theorem minus_before_prefix_is_dropped:
  assumes "list_all is_space w" and "a \<noteq> []" and "list_all is_amount_char a"
  shows "extract_currency_from_line (U ''-R$'' @ w @ a) = parse_currency a
         \<and> extract_currency_from_line (U ''R$'' @ w @ a) = parse_currency a
         \<and> (\<forall>v. parse_currency a = Some v \<longrightarrow> 0 \<le> v)
         \<and> extract_currency_from_line (U ''-R$ 10,00'') = Some 10"
proof -
  have body: "rs_body (82 # 36 # w @ a) = Some a"
    using rs_body_amount [OF assms, of "[]"] by simp
  have "rs_search (45 # 82 # 36 # w @ a) = Some a"
    using body by (simp add: rs_at_def)
  then have with_minus: "extract_currency_from_line (U ''-R$'' @ w @ a) = parse_currency a"
    by (simp add: extract_currency_from_line_def U_def)
  have "rs_search (82 # 36 # w @ a) = Some a"
    using body by (simp add: rs_at_def)
  then have without: "extract_currency_from_line (U ''R$'' @ w @ a) = parse_currency a"
    by (simp add: extract_currency_from_line_def U_def)
  have "45 \<notin> set a"
    using assms(3) by (auto simp: list_all_iff is_amount_char_def is_ascii_digit_def)
  then have nonneg: "\<forall>v. parse_currency a = Some v \<longrightarrow> 0 \<le> v"
    using parse_currency_nonneg by blast
  have "extract_currency_from_line (U ''-R$ 10,00'') = Some 10"
    by (simp add: str_eval cur_eval)
  with with_minus without nonneg show ?thesis by blast
qed

theorem minus_before_prefix_is_dropped_witness:
  "list_all is_space (U '' '') \<and> U ''10,00'' \<noteq> [] \<and> list_all is_amount_char (U ''10,00'')
   \<and> extract_currency_from_line (U ''-R$'' @ U '' '' @ U ''10,00'') = Some 10
   \<and> parse_currency (U ''10,00'') = Some 10"
proof -
  have h1: "list_all is_space (U '' '')" by (simp add: str_eval)
  have h2: "U ''10,00'' \<noteq> []" by (simp add: U_def)
  have h3: "list_all is_amount_char (U ''10,00'')"
    by (simp add: str_eval is_amount_char_def)
  have v: "parse_currency (U ''10,00'') = Some 10" by (simp add: str_eval cur_eval)
  show ?thesis
    using h1 h2 h3 v minus_before_prefix_is_dropped [OF h1 h2 h3] by simp
qed

subsection \<open>The sign of the promotion\<close>

text \<open>
  C2, on the code. The builder puts a minus sign before every promotion amount that
  is present: the formatted amount begins with "R$ ", so the test for a leading "-"
  never holds. A promotion of 10.00 is shown as "-R$ 10,00", an absent one as "-",
  and a promotion stored as -10.00 as "-R$ -10,00", with two minus signs. The parser
  stores -10.00 when the amount after the "Promocao" line is written "-10,00",
  without the currency prefix.
\<close>

theorem promo_negative_has_two_signs:
  "promo_fmt (r\<lparr>promocao := Some v\<rparr>) = U ''-'' @ fmt_currency (Some v)
   \<and> promo_fmt (r\<lparr>promocao := Some (- 10)\<rparr>) = U ''-R$ -10,00''
   \<and> promo_fmt (r\<lparr>promocao := Some 10\<rparr>) = U ''-R$ 10,00''
   \<and> promo_fmt (r\<lparr>promocao := None\<rparr>) = U ''-''
   \<and> find_value_after_keyword u [U ''Promocao'', U ''-10,00''] (U ''promocao'')
       = Inr (Some (- 10))"
proof -
  have "promo_fmt (r\<lparr>promocao := Some v\<rparr>) = U ''-'' @ fmt_currency (Some v)"
    by (simp add: promo_fmt_def Let_def fmt_currency_prefix startswith_def U_def)
  moreover have "find_value_after_keyword u [U ''Promocao'', U ''-10,00''] (U ''promocao'')
                   = Inr (Some (- 10))"
    by (simp add: find_value_after_keyword_def bind_err_def nth_py_def
        str_eval norm_eval cur_eval)
  moreover have "promo_fmt (r\<lparr>promocao := Some (- 10)\<rparr>) = U ''-R$ -10,00''"
    by (simp add: str_eval fmt_eval)
  moreover have "promo_fmt (r\<lparr>promocao := Some 10\<rparr>) = U ''-R$ 10,00''"
    by (simp add: str_eval fmt_eval)
  moreover have "promo_fmt (r\<lparr>promocao := None\<rparr>) = U ''-''"
    by (simp add: str_eval fmt_eval)
  ultimately show ?thesis by blast
qed

subsection \<open>Currency extraction\<close>

text \<open>
  C4, as the claim states it, fails: a line that contains "R$ 1.234,56" after an
  earlier amount yields the earlier amount, the search taking the first match.
\<close>

theorem currency_first_amount_wins:
  "contains (U ''R$ 1.234,56'') (U ''R$ 9,99 + R$ 1.234,56'')
   \<and> extract_currency_from_line (U ''R$ 9,99 + R$ 1.234,56'') = Some 9.99
   \<and> extract_currency_from_line (U ''R$ 9,99 + R$ 1.234,56'') \<noteq> Some 1234.56"
  by (simp add: str_eval cur_eval)

text \<open>
  C4, amended. A line in which "R$ 1.234,56" is the first "R$" and is not directly
  followed by a digit, comma or period yields 1234.56; the bare strings "1.234,56"
  and "1234,56" yield 1234.56; a line without a digit yields nothing; and the parsing
  is the rule of the specification: strip all but digits, comma, period and minus,
  with both separators drop the periods, turn commas into periods, and give nothing
  when the rest is not a number.
\<close>

theorem currency_extraction_rules:
  "(\<forall>pre post. \<not> contains (U ''R$'') pre \<and> (post = [] \<or> \<not> is_amount_char (hd post))
       \<longrightarrow> extract_currency_from_line (pre @ U ''R$ 1.234,56'' @ post) = Some 1234.56)
   \<and> extract_currency_from_line (U ''1.234,56'') = Some 1234.56
   \<and> extract_currency_from_line (U ''1234,56'') = Some 1234.56
   \<and> (\<forall>line. (\<forall>c\<in>set line. \<not> is_ascii_digit c) \<longrightarrow> extract_currency_from_line line = None)
   \<and> (\<forall>text. parse_currency text = parse_currency_spec text)"
proof -
  have amount: "parse_currency (U ''1.234,56'') = Some 1234.56"
    by (simp add: str_eval cur_eval)
  have first: "extract_currency_from_line (pre @ U ''R$ 1.234,56'' @ post) = Some 1234.56"
    if "\<not> contains (U ''R$'') pre" and "post = [] \<or> \<not> is_amount_char (hd post)"
    for pre post
  proof -
    have "rs_search (pre @ 82 # 36 # [32] @ U ''1.234,56'' @ post) = Some (U ''1.234,56'')"
      by (rule rs_search_first [OF that(1) _ _ _ that(2)])
        (simp_all add: str_eval is_amount_char_def)
    moreover have "pre @ U ''R$ 1.234,56'' @ post = pre @ 82 # 36 # [32] @ U ''1.234,56'' @ post"
      by (simp add: U_def)
    ultimately show ?thesis by (simp add: extract_currency_from_line_def amount)
  qed
  have bare1: "extract_currency_from_line (U ''1.234,56'') = Some 1234.56"
    by (simp add: str_eval cur_eval)
  have bare2: "extract_currency_from_line (U ''1234,56'') = Some 1234.56"
    by (simp add: str_eval cur_eval)
  show ?thesis
    using first bare1 bare2 extract_no_digit parse_currency_refines by blast
qed

theorem currency_extraction_rules_witness:
  "\<not> contains (U ''R$'') (U ''Total '')
   \<and> extract_currency_from_line (U ''Total '' @ U ''R$ 1.234,56'' @ []) = Some 1234.56
   \<and> list_all (\<lambda>c. \<not> is_ascii_digit c) (U ''sem valor'')
   \<and> extract_currency_from_line (U ''sem valor'') = None"
proof -
  have h1: "\<not> contains (U ''R$'') (U ''Total '')" by (simp add: str_eval)
  have h2: "\<forall>c\<in>set (U ''sem valor''). \<not> is_ascii_digit c" by (simp add: str_eval)
  then have h2': "list_all (\<lambda>c. \<not> is_ascii_digit c) (U ''sem valor'')"
    by (simp add: list_all_iff)
  from currency_extraction_rules h1
  have "extract_currency_from_line (U ''Total '' @ U ''R$ 1.234,56'' @ []) = Some 1234.56"
    by blast
  moreover from currency_extraction_rules h2
  have "extract_currency_from_line (U ''sem valor'') = None"
    by blast
  ultimately show ?thesis using h1 h2' by blast
qed

subsection \<open>Keyword-anchored values\<close>

text \<open>
  C3, as the claim states it, fails: when neither the first keyword line nor the line
  after it holds a value, the loop goes on and a later line with the keyword is
  consulted. Here the first "Total" line and its successor hold no amount and the
  value comes from the third line.
\<close>

theorem later_keyword_line_is_consulted:
  "first_keyword_only ucd_pt [U ''Total'', U ''abc'', U ''Total R$ 5,00''] (U ''total'') = None
   \<and> find_value_after_keyword ucd_pt [U ''Total'', U ''abc'', U ''Total R$ 5,00''] (U ''total'')
       = Inr (Some 5)"
  by (simp add: find_value_after_keyword_def first_keyword_only_def keyword_line_def
      anchor_value_def bind_err_def nth_py_def ucd_pt_def pt_base_def
      str_eval norm_eval cur_eval)

text \<open>
  C3, amended. The value comes from the first line that contains the keyword and at
  which extraction succeeds, from that line or else from the line right after it;
  keyword lines at which both fail are passed over, and the result is absent when
  there is no such line. So when the first keyword line yields a value, that value is
  the result and later lines with the keyword are not consulted.
\<close>

theorem keyword_value_first_success:
  "find_value_after_keyword u lines key = Inr (first_keyword_with_value u lines key)
   \<and> (first_keyword_only u lines key \<noteq> None \<longrightarrow>
        find_value_after_keyword u lines key = Inr (first_keyword_only u lines key))"
  using find_value_after_keyword_eq [of u lines key] first_keyword_wins [of u lines key]
  by simp

theorem keyword_value_first_success_witness:
  "first_keyword_only ucd_pt [U ''Total R$ 7,00'', U ''Total R$ 5,00''] (U ''total'') \<noteq> None
   \<and> find_value_after_keyword ucd_pt [U ''Total R$ 7,00'', U ''Total R$ 5,00''] (U ''total'')
       = Inr (Some 7)"
proof -
  have v: "first_keyword_only ucd_pt [U ''Total R$ 7,00'', U ''Total R$ 5,00''] (U ''total'')
             = Some 7"
    by (simp add: first_keyword_only_def keyword_line_def anchor_value_def
        ucd_pt_def pt_base_def str_eval norm_eval cur_eval)
  then have "find_value_after_keyword ucd_pt [U ''Total R$ 7,00'', U ''Total R$ 5,00'']
               (U ''total'')
             = Inr (first_keyword_only ucd_pt [U ''Total R$ 7,00'', U ''Total R$ 5,00'']
                 (U ''total''))"
    using keyword_value_first_success
      [of ucd_pt "[U ''Total R$ 7,00'', U ''Total R$ 5,00'']" "U ''total''"]
    by blast
  with v show ?thesis by simp
qed

subsection \<open>Date normalisation\<close>

text \<open>
  C5. With any Unicode tables in which c-cedilla (code points 231 and 199) decomposes
  into the letter and the combining cedilla 807, the date key of "5 de marco de 2024"
  written with c-cedilla is "20240305", and so is that of the same date in capitals:
  the text is normalised first, and the month is looked up by the lower-cased first
  three letters in a table of twelve entries. The result is absent exactly when the
  pattern does not match or the month prefix is not in the table; "marco de 2024"
  does not match, and in "5 de xyz de 2024" the prefix "xyz" is not in the table.
\<close>

theorem date_key_of_portuguese_date:
  "(decomposition u 231 = [99, 807] \<and> decomposition u 199 = [67, 807] \<and> combining u 807 \<noteq> 0
      \<longrightarrow> parse_date_pt u (norm_text u (U ''5 de mar'' @ [231] @ U ''o de 2024''))
            = Some (U ''20240305'')
        \<and> parse_date_pt u (norm_text u (U ''5 DE MAR'' @ [199] @ U ''O DE 2024''))
            = Some (U ''20240305'')
        \<and> match_date u (norm_text u (U ''mar'' @ [231] @ U ''o de 2024'')) = None
        \<and> parse_date_pt u (norm_text u (U ''mar'' @ [231] @ U ''o de 2024'')) = None)
   \<and> length months = 12 \<and> distinct (map fst months)
   \<and> (parse_date_pt u s = None \<longleftrightarrow>
        (match_date u s = None
         \<or> (\<exists>g1 g2 g3. match_date u s = Some (g1, g2, g3)
               \<and> map_of months (lower u (take 3 (strip_dots g2))) = None)))
   \<and> match_date u (norm_text u (U ''5 de xyz de 2024''))
       = Some (U ''5'', U ''xyz'', U ''2024'')
   \<and> parse_date_pt u (norm_text u (U ''5 de xyz de 2024'')) = None"
proof -
  have a: "parse_date_pt u (norm_text u (U ''5 de mar'' @ [231] @ U ''o de 2024''))
             = Some (U ''20240305'')"
    if "decomposition u 231 = [99, 807]" "combining u 807 \<noteq> 0"
    using that by (simp add: str_eval norm_eval date_eval)
  have b: "parse_date_pt u (norm_text u (U ''5 DE MAR'' @ [199] @ U ''O DE 2024''))
             = Some (U ''20240305'')"
    if "decomposition u 199 = [67, 807]" "combining u 807 \<noteq> 0"
    using that by (simp add: str_eval norm_eval date_eval)
  have e: "match_date u (norm_text u (U ''mar'' @ [231] @ U ''o de 2024'')) = None"
    if "decomposition u 231 = [99, 807]" "combining u 807 \<noteq> 0"
    using that by (simp add: str_eval norm_eval date_eval)
  have e': "parse_date_pt u (norm_text u (U ''mar'' @ [231] @ U ''o de 2024'')) = None"
    if "decomposition u 231 = [99, 807]" "combining u 807 \<noteq> 0"
    using e [OF that] by (simp add: parse_date_pt_def)
  have c: "length months = 12 \<and> distinct (map fst months)"
    by (simp add: months_def U_def)
  have d: "parse_date_pt u s = None \<longleftrightarrow>
        (match_date u s = None
         \<or> (\<exists>g1 g2 g3. match_date u s = Some (g1, g2, g3)
               \<and> map_of months (lower u (take 3 (strip_dots g2))) = None))"
    by (auto simp: parse_date_pt_def month_prefix_def Let_def split: option.splits
        dest: months_nonempty)
  have f: "match_date u (norm_text u (U ''5 de xyz de 2024''))
             = Some (U ''5'', U ''xyz'', U ''2024'')"
    by (simp add: str_eval norm_eval date_eval)
  have f': "parse_date_pt u (norm_text u (U ''5 de xyz de 2024'')) = None"
    by (simp add: str_eval norm_eval date_eval)
  from a b c d e e' f f' show ?thesis by blast
qed

theorem date_key_of_portuguese_date_witness:
  "decomposition ucd_pt 231 = [99, 807] \<and> decomposition ucd_pt 199 = [67, 807]
   \<and> combining ucd_pt 807 \<noteq> 0
   \<and> parse_date_pt ucd_pt (norm_text ucd_pt (U ''5 de mar'' @ [231] @ U ''o de 2024''))
       = Some (U ''20240305'')
   \<and> parse_date_pt ucd_pt (norm_text ucd_pt (U ''5 DE MAR'' @ [199] @ U ''O DE 2024''))
       = Some (U ''20240305'')
   \<and> parse_date_pt ucd_pt (norm_text ucd_pt (U ''mar'' @ [231] @ U ''o de 2024'')) = None"
proof -
  have h: "decomposition ucd_pt 231 = [99, 807] \<and> decomposition ucd_pt 199 = [67, 807]
           \<and> combining ucd_pt 807 \<noteq> 0"
    by (simp add: pt_eval)
  with date_key_of_portuguese_date [of ucd_pt "[]"] show ?thesis by blast
qed

subsection \<open>The parser always returns a record\<close>

text \<open>
  C1. For every list of lines the parser returns a record and raises nothing: each
  extraction rule returns normally, no read of \<open>lines\<close> or \<open>pontos\<close> is out of range,
  and each field of the record is the result of its own rule alone. A rule that
  finds nothing gives an absent field: an amount that is not a number, a keyword on
  the last line, and a text without a date all give \<open>None\<close>.
\<close>

theorem parser_always_returns:
  "(\<exists>dh pag vi pontos.
       date_header_from u lines 0 lines = Inr dh
       \<and> pagamento_from u lines 0 lines = Inr pag
       \<and> viagem_from u lines 0 lines = Inr vi
       \<and> pontos_loop u lines (start_idx_from u 0 lines) [] = Inr pontos
       \<and> length pontos \<le> 2
       \<and> (\<forall>key. find_value_after_keyword u lines key
                  = Inr (first_keyword_with_value u lines key))
       \<and> parse_lines u arq lines =
           Inr \<lparr> arquivo = arq,
                 data_texto = fst dh,
                 hora = snd dh,
                 data_yyyymmdd =
                   parse_date_pt u (norm_text u (case fst dh of None \<Rightarrow> [] | Some d \<Rightarrow> d)),
                 total = first_keyword_with_value u lines (U ''total''),
                 preco_viagem = first_keyword_with_value u lines (U ''preco da viagem''),
                 taxa_intermediacao =
                   first_keyword_with_value u lines (U ''taxa de intermediacao''),
                 custo_fixo = first_keyword_with_value u lines (U ''custo fixo''),
                 promocao = first_keyword_with_value u lines (U ''promocao''),
                 pagamento_linha = pag,
                 categoria = fst vi,
                 distancia_km = fst (snd vi),
                 duracao_min = snd (snd vi),
                 origem = (case pontos of [] \<Rightarrow> None | p # _ \<Rightarrow> Some p),
                 destino = (case pontos of p # q # _ \<Rightarrow> Some q | _ \<Rightarrow> None) \<rparr>)
   \<and> (\<exists>r. carregar_recibo_uber u arq raw = Inr r)
   \<and> find_value_after_keyword u [U ''Total R$ ,,''] (U ''total'') = Inr None
   \<and> find_value_after_keyword u [U ''Total''] (U ''total'') = Inr None
   \<and> pagamento_from u [U ''Pagamentos''] 0 [U ''Pagamentos''] = Inr None
   \<and> date_header_from u [U ''sem data''] 0 [U ''sem data''] = Inr (None, None)"
proof -
  let ?gs = "time_groups u (drop (start_idx_from u 0 lines) lines)"
  have ps: "pontos_loop u lines (start_idx_from u 0 lines) [] = Inr (take 2 ?gs)"
    using pontos_loop_eq [of "[]" u lines "start_idx_from u 0 lines"] by simp
  have o: "(case take 2 ?gs of [] \<Rightarrow> None | p # _ \<Rightarrow> Some p)
           = (case ?gs of [] \<Rightarrow> None | p # _ \<Rightarrow> Some p)"
    by (simp split: list.splits)
  have d: "(case take 2 ?gs of p # q # _ \<Rightarrow> Some q | _ \<Rightarrow> None)
           = (case ?gs of p # q # _ \<Rightarrow> Some q | _ \<Rightarrow> None)"
    by (simp split: list.splits)
  have main: "\<exists>dh pag vi pontos.
       date_header_from u lines 0 lines = Inr dh
       \<and> pagamento_from u lines 0 lines = Inr pag
       \<and> viagem_from u lines 0 lines = Inr vi
       \<and> pontos_loop u lines (start_idx_from u 0 lines) [] = Inr pontos
       \<and> length pontos \<le> 2
       \<and> (\<forall>key. find_value_after_keyword u lines key
                  = Inr (first_keyword_with_value u lines key))
       \<and> parse_lines u arq lines =
           Inr \<lparr> arquivo = arq,
                 data_texto = fst dh,
                 hora = snd dh,
                 data_yyyymmdd =
                   parse_date_pt u (norm_text u (case fst dh of None \<Rightarrow> [] | Some d \<Rightarrow> d)),
                 total = first_keyword_with_value u lines (U ''total''),
                 preco_viagem = first_keyword_with_value u lines (U ''preco da viagem''),
                 taxa_intermediacao =
                   first_keyword_with_value u lines (U ''taxa de intermediacao''),
                 custo_fixo = first_keyword_with_value u lines (U ''custo fixo''),
                 promocao = first_keyword_with_value u lines (U ''promocao''),
                 pagamento_linha = pag,
                 categoria = fst vi,
                 distancia_km = fst (snd vi),
                 duracao_min = snd (snd vi),
                 origem = (case pontos of [] \<Rightarrow> None | p # _ \<Rightarrow> Some p),
                 destino = (case pontos of p # q # _ \<Rightarrow> Some q | _ \<Rightarrow> None) \<rparr>"
  proof -
    obtain dh pag vi where f: "date_header_from u lines 0 lines = Inr dh"
        "pagamento_from u lines 0 lines = Inr pag" "viagem_from u lines 0 lines = Inr vi"
      and pl: "parse_lines u arq lines =
           Inr \<lparr> arquivo = arq,
                 data_texto = fst dh,
                 hora = snd dh,
                 data_yyyymmdd =
                   parse_date_pt u (norm_text u (case fst dh of None \<Rightarrow> [] | Some d \<Rightarrow> d)),
                 total = first_keyword_with_value u lines (U ''total''),
                 preco_viagem = first_keyword_with_value u lines (U ''preco da viagem''),
                 taxa_intermediacao =
                   first_keyword_with_value u lines (U ''taxa de intermediacao''),
                 custo_fixo = first_keyword_with_value u lines (U ''custo fixo''),
                 promocao = first_keyword_with_value u lines (U ''promocao''),
                 pagamento_linha = pag,
                 categoria = fst vi,
                 distancia_km = fst (snd vi),
                 duracao_min = snd (snd vi),
                 origem = (case ?gs of [] \<Rightarrow> None | p # _ \<Rightarrow> Some p),
                 destino = (case ?gs of p # q # _ \<Rightarrow> Some q | _ \<Rightarrow> None) \<rparr>"
      using parse_lines_fields [of u lines arq] by blast
    have len: "length (take 2 ?gs) \<le> 2" by simp
    show ?thesis
      by (intro exI [of _ dh] exI [of _ pag] exI [of _ vi] exI [of _ "take 2 ?gs"]
          conjI f ps len allI find_value_after_keyword_eq)
        (simp only: pl o d)
  qed
  have ret: "\<exists>r. carregar_recibo_uber u arq raw = Inr r"
    using parse_lines_fields [of u "filter (\<lambda>l. l \<noteq> []) (map clean_text raw)" arq]
    unfolding carregar_recibo_uber_def by blast
  have ex1: "find_value_after_keyword u [U ''Total R$ ,,''] (U ''total'') = Inr None"
    by (simp add: find_value_after_keyword_def str_eval norm_eval cur_eval)
  have ex2: "find_value_after_keyword u [U ''Total''] (U ''total'') = Inr None"
    by (simp add: find_value_after_keyword_def str_eval norm_eval cur_eval)
  have ex3: "pagamento_from u [U ''Pagamentos''] 0 [U ''Pagamentos''] = Inr None"
    by (simp add: str_eval norm_eval)
  have ex4: "date_header_from u [U ''sem data''] 0 [U ''sem data''] = Inr (None, None)"
    by (simp add: date_line_match_def is_digit_def str_eval norm_eval)
  show ?thesis by (intro conjI main ret ex1 ex2 ex3 ex4)
qed

subsection \<open>Origin and destination\<close>

text \<open>
  C6. The two loops that fill \<open>pontos\<close> compute the first two groups of the lines
  from \<open>start_idx\<close> on, where every time-marker line opens a group whose address is
  made of the following lines up to the next time marker or the next line starting
  with "voce viajou" (left out), joined with single spaces. The first group is the
  origin and the second the destination, each absent when there is no such group.
  \<open>start_idx\<close> is the index after the first line that normalises to "informacoes da
  viagem".
\<close>

theorem origin_destination_groups:
  "pontos_loop u lines (start_idx_from u 0 lines) []
     = Inr (take 2 (time_groups u (drop (start_idx_from u 0 lines) lines)))
   \<and> (\<exists>r. parse_lines u arq lines = Inr r
        \<and> origem r = (case time_groups u (drop (start_idx_from u 0 lines) lines) of
                        [] \<Rightarrow> None | p # _ \<Rightarrow> Some p)
        \<and> destino r = (case time_groups u (drop (start_idx_from u 0 lines) lines) of
                         p # q # _ \<Rightarrow> Some q | _ \<Rightarrow> None))
   \<and> (\<forall>i. i < length lines \<and> norm_text u (lines ! i) = U ''informacoes da viagem''
          \<and> (\<forall>j<i. norm_text u (lines ! j) \<noteq> U ''informacoes da viagem'')
        \<longrightarrow> start_idx_from u 0 lines = i + 1)"
proof -
  let ?gs = "time_groups u (drop (start_idx_from u 0 lines) lines)"
  have a: "pontos_loop u lines (start_idx_from u 0 lines) [] = Inr (take 2 ?gs)"
    using pontos_loop_eq [of "[]" u lines "start_idx_from u 0 lines"] by simp
  obtain r where r: "parse_lines u arq lines = Inr r"
    and o: "origem r = (case ?gs of [] \<Rightarrow> None | p # _ \<Rightarrow> Some p)"
    and d: "destino r = (case ?gs of p # q # _ \<Rightarrow> Some q | _ \<Rightarrow> None)"
    using parse_lines_fields [of u lines arq] by force
  have c: "start_idx_from u 0 lines = i + 1"
    if "i < length lines" "norm_text u (lines ! i) = U ''informacoes da viagem''"
      "\<forall>j<i. norm_text u (lines ! j) \<noteq> U ''informacoes da viagem''" for i
    using start_idx_found [OF that, of 0] by simp
  from a r o d c show ?thesis by blast
qed

theorem origin_destination_groups_witness:
  "0 < length trip_lines
   \<and> norm_text ucd_pt (trip_lines ! 0) = U ''informacoes da viagem''
   \<and> start_idx_from ucd_pt 0 trip_lines = 1
   \<and> pontos_loop ucd_pt trip_lines 1 [] =
       Inr [\<lparr>ponto_hora = U ''10:00'', endereco = U ''Rua A, 10 Centro''\<rparr>,
            \<lparr>ponto_hora = U ''10:30'', endereco = U ''Rua B''\<rparr>]"
proof -
  have h1: "0 < length trip_lines" by (simp add: trip_lines_def)
  have h2: "norm_text ucd_pt (trip_lines ! 0) = U ''informacoes da viagem''"
    by (simp add: trip_lines_def pt_eval str_eval norm_eval)
  have gs: "time_groups ucd_pt (drop (Suc 0) trip_lines) =
     [\<lparr>ponto_hora = U ''10:00'', endereco = U ''Rua A, 10 Centro''\<rparr>,
      \<lparr>ponto_hora = U ''10:30'', endereco = U ''Rua B''\<rparr>,
      \<lparr>ponto_hora = U ''11:00'', endereco = U ''Rua C''\<rparr>]"
    by (simp add: trip_lines_def pt_eval str_eval norm_eval time_eval)
  note t = origin_destination_groups [of ucd_pt trip_lines "[]"]
  from t h1 h2 have st: "start_idx_from ucd_pt 0 trip_lines = 0 + 1" by blast
  from t have "pontos_loop ucd_pt trip_lines (start_idx_from ucd_pt 0 trip_lines) []
     = Inr (take 2 (time_groups ucd_pt (drop (start_idx_from ucd_pt 0 trip_lines) trip_lines)))"
    by blast
  then have "pontos_loop ucd_pt trip_lines 1 [] =
       Inr [\<lparr>ponto_hora = U ''10:00'', endereco = U ''Rua A, 10 Centro''\<rparr>,
            \<lparr>ponto_hora = U ''10:30'', endereco = U ''Rua B''\<rparr>]"
    using st by (simp add: gs)
  with h1 h2 st show ?thesis by simp
qed

subsection \<open>The order of the records\<close>

text \<open>
  C7, as the claim states it, fails: the times are compared as strings, and the
  parser accepts a time with a one-digit hour, so of two trips of the same day the
  one at 10:30 comes before the one at 9:05.
\<close>

theorem one_digit_hour_sorts_last:
  "time_match ucd_pt (U ''9:05'') \<and> time_match ucd_pt (U ''10:30'')
   \<and> list_all wf_keys time_example
   \<and> recibos_ordenados time_example =
       [empty_recibo\<lparr>data_yyyymmdd := Some (U ''20240101''), hora := Some (U ''10:30'')\<rparr>,
        empty_recibo\<lparr>data_yyyymmdd := Some (U ''20240101''), hora := Some (U ''9:05'')\<rparr>]"
  by (simp add: time_example_def recibos_ordenados_def sort_key_uber_def py_or_def
      wf_keys_def empty_recibo_def pt_eval time_eval str_eval)

text \<open>
  C7, amended. The parser builds only records whose date key, when present, has
  eight characters and whose time, when present, is not empty. For such records,
  sorting by \<open>_sort_key\<close> permutes the records and puts them in ascending order of
  the pair (date key or "00000000", time or "00:00"). So a record with neither date
  nor time comes before every record whose date key was parsed, and of two records
  with the same date the one whose time is the smaller string comes first; for
  times written HH:MM that is the order of (hour, minute).
\<close>

theorem records_sorted_by_composite_key:
  assumes "\<forall>r\<in>set rs. wf_keys r"
  shows "mset (recibos_ordenados rs) = mset rs
   \<and> sorted (map composite_key (recibos_ordenados rs))
   \<and> (\<forall>i j. i < length rs \<and> j < length rs
          \<and> data_yyyymmdd (recibos_ordenados rs ! i) = None
          \<and> hora (recibos_ordenados rs ! i) = None
          \<and> (\<exists>s d. parse_date_pt u s = Some d
                \<and> data_yyyymmdd (recibos_ordenados rs ! j) = Some d)
        \<longrightarrow> i < j)
   \<and> (\<forall>i j. i < length rs \<and> j < length rs
          \<and> fst (composite_key (recibos_ordenados rs ! i))
              = fst (composite_key (recibos_ordenados rs ! j))
          \<and> snd (composite_key (recibos_ordenados rs ! i))
              < snd (composite_key (recibos_ordenados rs ! j))
        \<longrightarrow> i < j)
   \<and> (\<forall>t1 t2 p1 p2. hhmm t1 = Some p1 \<and> hhmm t2 = Some p2 \<longrightarrow> (t1 < t2) = (p1 < p2))
   \<and> (\<forall>arq lines r. parse_lines u arq lines = Inr r \<longrightarrow> wf_keys r)"
proof -
  let ?out = "recibos_ordenados rs"
  have len: "length ?out = length rs" by (simp add: recibos_ordenados_def)
  have perm: "mset ?out = mset rs" by (simp add: recibos_ordenados_def)
  have srt: "sorted (map composite_key ?out)" by (rule sorted_composite [OF assms])
  have pos: "i < j" if "i < length rs" "j < length rs"
    "composite_key (?out ! i) < composite_key (?out ! j)" for i j
    using sorted_position [OF srt, of i j] that len by simp
  have absent: "i < j" if "i < length rs" "j < length rs"
    "data_yyyymmdd (?out ! i) = None" "hora (?out ! i) = None"
    "parse_date_pt u s = Some d" "data_yyyymmdd (?out ! j) = Some d" for i j s d
  proof -
    from parse_date_shape [OF that(5)] have "U ''00000000'' < d" by simp
    then have "composite_key (?out ! i) < composite_key (?out ! j)"
      using that(3,4,6) by (simp add: composite_key_def less_prod_def)
    then show ?thesis by (rule pos [OF that(1,2)])
  qed
  have same: "i < j" if "i < length rs" "j < length rs"
    "fst (composite_key (?out ! i)) = fst (composite_key (?out ! j))"
    "snd (composite_key (?out ! i)) < snd (composite_key (?out ! j))" for i j
    using pos [OF that(1,2)] that(3,4) by (simp add: less_prod_def)
  show ?thesis
    using perm srt absent same hhmm_order parser_records_wf_keys by blast
qed

theorem records_sorted_by_composite_key_witness:
  "list_all wf_keys sort_example
   \<and> recibos_ordenados sort_example =
       [empty_recibo,
        empty_recibo\<lparr>data_yyyymmdd := Some (U ''20240101''), hora := Some (U ''08:00'')\<rparr>,
        empty_recibo\<lparr>data_yyyymmdd := Some (U ''20240101''), hora := Some (U ''09:00'')\<rparr>]
   \<and> sorted (map composite_key (recibos_ordenados sort_example))
   \<and> parse_date_pt ucd_pt (U ''1 de jan de 2024'') = Some (U ''20240101'')
   \<and> hhmm (U ''08:00'') = Some (8, 0) \<and> hhmm (U ''09:00'') = Some (9, 0)
   \<and> U ''08:00'' < U ''09:00''"
proof -
  have wf: "\<forall>r\<in>set sort_example. wf_keys r"
    by (simp add: sort_example_def wf_keys_def empty_recibo_def U_def)
  then have wf': "list_all wf_keys sort_example" by (simp add: list_all_iff)
  have out: "recibos_ordenados sort_example =
       [empty_recibo,
        empty_recibo\<lparr>data_yyyymmdd := Some (U ''20240101''), hora := Some (U ''08:00'')\<rparr>,
        empty_recibo\<lparr>data_yyyymmdd := Some (U ''20240101''), hora := Some (U ''09:00'')\<rparr>]"
    by (simp add: recibos_ordenados_def sort_example_def sort_key_uber_def py_or_def
        empty_recibo_def U_def)
  have pd: "parse_date_pt ucd_pt (U ''1 de jan de 2024'') = Some (U ''20240101'')"
    by (simp add: pt_eval str_eval norm_eval date_eval)
  have h8: "hhmm (U ''08:00'') = Some (8, 0)" by (simp add: hhmm_def str_eval)
  have h9: "hhmm (U ''09:00'') = Some (9, 0)" by (simp add: hhmm_def str_eval)
  note t = records_sorted_by_composite_key [OF wf, of ucd_pt]
  from t have s: "sorted (map composite_key (recibos_ordenados sort_example))" by blast
  from t h8 h9 have "(U ''08:00'' < U ''09:00'') = ((8::nat, 0::nat) < (9, 0))" by blast
  then have lt: "U ''08:00'' < U ''09:00''" by (simp add: less_prod_def)
  from wf' out s pd h8 h9 lt show ?thesis by simp
qed

subsection \<open>Weeks of the month\<close>

text \<open>
  C8. For a record whose date key the builder can read as the date (y, m, d), the day
  is between 1 and 31 and the step of the aggregation loop adds the record's total
  under the month key (m, y) and under the week key with week number
  ((d - 1) div 7) + 1, which is between 1 and 5; days 1 and 7 fall in week 1, day 8 in
  week 2 and day 31 in week 5. A record whose date key cannot be read leaves both
  tables as they are, so the tables are those of the records with a readable date.
\<close>

theorem week_of_month_buckets:
  "(\<forall>y m d. date_from_yyyymmdd u (data_yyyymmdd r) = Some (y, m, d) \<longrightarrow>
       1 \<le> d \<and> d \<le> 31 \<and> 1 \<le> week_idx d \<and> week_idx d \<le> 5
       \<and> week_idx d = (d - 1) div 7 + 1
       \<and> period_step fadd u acc r =
           ((fst acc)((m, y) \<mapsto>
               fadd (get_or_zero (fst acc) (m, y)) (case total r of None \<Rightarrow> 0 | Some x \<Rightarrow> x)),
            (snd acc)(((m, y), (d - 1) div 7 + 1) \<mapsto>
               fadd (get_or_zero (snd acc) ((m, y), (d - 1) div 7 + 1))
                 (case total r of None \<Rightarrow> 0 | Some x \<Rightarrow> x))))
   \<and> (date_from_yyyymmdd u (data_yyyymmdd r) = None \<longrightarrow> period_step fadd u acc r = acc)
   \<and> period_totals fadd u rs =
       period_totals fadd u
         (filter (\<lambda>r. date_from_yyyymmdd u (data_yyyymmdd r) \<noteq> None) rs)
   \<and> week_idx 1 = 1 \<and> week_idx 7 = 1 \<and> week_idx 8 = 2 \<and> week_idx 31 = 5
   \<and> date_from_yyyymmdd u (Some (U ''20240101'')) = Some (2024, 1, 1)
   \<and> date_from_yyyymmdd u (Some (U ''20240107'')) = Some (2024, 1, 7)
   \<and> date_from_yyyymmdd u (Some (U ''20240108'')) = Some (2024, 1, 8)
   \<and> date_from_yyyymmdd u (Some (U ''20240131'')) = Some (2024, 1, 31)"
proof -
  have a: "1 \<le> d \<and> d \<le> 31 \<and> 1 \<le> week_idx d \<and> week_idx d \<le> 5
       \<and> week_idx d = (d - 1) div 7 + 1
       \<and> period_step fadd u acc r =
           ((fst acc)((m, y) \<mapsto>
               fadd (get_or_zero (fst acc) (m, y)) (case total r of None \<Rightarrow> 0 | Some x \<Rightarrow> x)),
            (snd acc)(((m, y), (d - 1) div 7 + 1) \<mapsto>
               fadd (get_or_zero (snd acc) ((m, y), (d - 1) div 7 + 1))
                 (case total r of None \<Rightarrow> 0 | Some x \<Rightarrow> x)))"
    if "date_from_yyyymmdd u (data_yyyymmdd r) = Some (y, m, d)" for y m d
    using date_from_day [OF that] week_idx_range [of d] that
    by (simp add: period_step_def Let_def week_idx_def)
  have b: "period_totals fadd u rs =
       period_totals fadd u
         (filter (\<lambda>r. date_from_yyyymmdd u (data_yyyymmdd r) \<noteq> None) rs)"
    unfolding period_totals_def by (rule period_fold_filter)
  have c: "week_idx 1 = 1 \<and> week_idx 7 = 1 \<and> week_idx 8 = 2 \<and> week_idx 31 = 5"
    by (simp add: week_idx_def)
  have d1: "date_from_yyyymmdd u (Some (U ''20240101'')) = Some (2024, 1, 1)"
    by (simp add: cal_eval str_eval)
  have d7: "date_from_yyyymmdd u (Some (U ''20240107'')) = Some (2024, 1, 7)"
    by (simp add: cal_eval str_eval)
  have d8: "date_from_yyyymmdd u (Some (U ''20240108'')) = Some (2024, 1, 8)"
    by (simp add: cal_eval str_eval)
  have d31: "date_from_yyyymmdd u (Some (U ''20240131'')) = Some (2024, 1, 31)"
    by (simp add: cal_eval str_eval)
  show ?thesis
    by (intro conjI allI impI a b d1 d7 d8 d31 period_step_skip c [THEN conjunct1]
        c [THEN conjunct2, THEN conjunct1] c [THEN conjunct2, THEN conjunct2, THEN conjunct1]
        c [THEN conjunct2, THEN conjunct2, THEN conjunct2])
qed

theorem week_of_month_buckets_witness:
  "date_from_yyyymmdd ucd_pt (data_yyyymmdd week_example) = Some (2024, 1, 8)
   \<and> fst (period_step (+) ucd_pt (Map.empty, Map.empty) week_example) (1, 2024)
       = Some 25
   \<and> snd (period_step (+) ucd_pt (Map.empty, Map.empty) week_example)
         ((1, 2024), 2) = Some 25
   \<and> date_from_yyyymmdd ucd_pt (data_yyyymmdd empty_recibo) = None
   \<and> period_step (+) ucd_pt (Map.empty, Map.empty) empty_recibo
       = (Map.empty, Map.empty)"
proof -
  have h: "date_from_yyyymmdd ucd_pt (data_yyyymmdd week_example) = Some (2024, 1, 8)"
    by (simp add: week_example_def empty_recibo_def cal_eval str_eval)
  have n: "date_from_yyyymmdd ucd_pt (data_yyyymmdd empty_recibo) = None"
    by (simp add: empty_recibo_def date_from_yyyymmdd_def)
  let ?acc = "(Map.empty, Map.empty) :: totals"
  let ?mk = "(1, 2024) :: month_key"
  let ?wk = "(?mk, (8 - 1) div 7 + 1) :: week_key"
  note t = week_of_month_buckets
    [of ucd_pt week_example "(+)" "(Map.empty, Map.empty)"]
  from t h have
    "period_step (+) ucd_pt (Map.empty, Map.empty) week_example =
       ((fst ?acc)(?mk \<mapsto>
           get_or_zero (fst ?acc) ?mk
           + (case total week_example of None \<Rightarrow> 0 | Some x \<Rightarrow> x)),
        (snd ?acc)(?wk \<mapsto>
           get_or_zero (snd ?acc) ?wk
           + (case total week_example of None \<Rightarrow> 0 | Some x \<Rightarrow> x)))"
    by blast
  then have s: "fst (period_step (+) ucd_pt (Map.empty, Map.empty) week_example)
                  (1, 2024) = Some 25
      \<and> snd (period_step (+) ucd_pt (Map.empty, Map.empty) week_example)
          ((1, 2024), 2) = Some 25"
    by (simp add: get_or_zero_def week_example_def empty_recibo_def)
  from week_of_month_buckets
    [of ucd_pt empty_recibo "(+)" "(Map.empty, Map.empty)"] n
  have e: "period_step (+) ucd_pt (Map.empty, Map.empty) empty_recibo
             = (Map.empty, Map.empty)"
    by blast
  from h s n e show ?thesis by blast
qed

end
